theory Spec2Isabelle
  imports Complex_Main
begin


section \<open>Values, errors and headers\<close>

text \<open>
  The annotator of \<^verbatim>\<open>updatewcs/dgeo.py\<close> works on an in-memory FITS file object: a list
  of header/data units (HDUs). A header is an ordered list of cards (keyword, value,
  comment); commentary keywords such as HISTORY may occur several times, so a header is
  a list and not a map. Header values are Python scalars. Floating-point values are only
  stored and tested for truth, never computed with, so they are carried as rationals.
\<close>

datatype val = VNone | VBool bool | VInt int | VFloat rat | VStr string

datatype error = KeyError | AttributeError | IndexError | TypeError | IOError

type_synonym card = "string \<times> val \<times> string"
type_synonym header = "card list"

record 'd hdu =
  header :: header
  hdata :: "'d option"

text \<open>Python truth of a value, as tested by \<^verbatim>\<open>a or b\<close>.\<close>

fun truthy :: "val \<Rightarrow> bool" where
  "truthy VNone = False"
| "truthy (VBool b) = b"
| "truthy (VInt i) = (i \<noteq> 0)"
| "truthy (VFloat r) = (r \<noteq> 0)"
| "truthy (VStr s) = (s \<noteq> [])"

text \<open>
  Python equality of scalars, which is what \<^verbatim>\<open>==\<close> and dictionary lookup use: booleans,
  integers and floats compare by numeric value (\<^verbatim>\<open>1 == 1.0 == True\<close>), everything else
  structurally.
\<close>

fun num_val :: "val \<Rightarrow> rat option" where
  "num_val (VBool b) = Some (if b then 1 else 0)"
| "num_val (VInt i) = Some (of_int i)"
| "num_val (VFloat r) = Some r"
| "num_val VNone = None"
| "num_val (VStr s) = None"

definition py_eq :: "val \<Rightarrow> val \<Rightarrow> bool" where
  "py_eq a b =
     (case num_val a of
        Some x \<Rightarrow> (case num_val b of Some y \<Rightarrow> x = y | None \<Rightarrow> False)
      | None \<Rightarrow> (case num_val b of Some y \<Rightarrow> False | None \<Rightarrow> a = b))"

text \<open>\<^verbatim>\<open>str.lower()\<close> on the ASCII letters; a value that is not a string has no such method.\<close>

definition lower_char :: "char \<Rightarrow> char" where
  "lower_char c =
     (case map_of (zip ''ABCDEFGHIJKLMNOPQRSTUVWXYZ'' ''abcdefghijklmnopqrstuvwxyz'') c of
        Some d \<Rightarrow> d
      | None \<Rightarrow> c)"

definition lower :: "val \<Rightarrow> error + string" where
  "lower v = (case v of VStr s \<Rightarrow> Inr (map lower_char s) | _ \<Rightarrow> Inl AttributeError)"

text \<open>\<^verbatim>\<open>'%s' % n\<close> for an integer \<open>n\<close>: its decimal digits.\<close>

definition digit_char :: "nat \<Rightarrow> char" where
  "digit_char d = ''0123456789'' ! (d mod 10)"

fun str_nat :: "nat \<Rightarrow> string" where
  "str_nat n = (if n < 10 then [digit_char n] else str_nat (n div 10) @ [digit_char n])"

declare str_nat.simps [simp del]

definition str_int :: "int \<Rightarrow> string" where
  "str_int i = (if i < 0 then CHR ''-'' # str_nat (nat (- i)) else str_nat (nat i))"

subsection \<open>Header access\<close>

text \<open>\<^verbatim>\<open>hdr[key]\<close>: the value of the first card with that keyword, KeyError when there is none.\<close>

fun hdr_get :: "header \<Rightarrow> string \<Rightarrow> error + val" where
  "hdr_get [] key = Inl KeyError"
| "hdr_get ((k, v, c) # cs) key = (if k = key then Inr v else hdr_get cs key)"

definition has_key :: "header \<Rightarrow> string \<Rightarrow> bool" where
  "has_key hdr key = (key \<in> fst ` set hdr)"

fun replace_card :: "card \<Rightarrow> header \<Rightarrow> header" where
  "replace_card new [] = []"
| "replace_card new (old # cs) =
     (if fst old = fst new then new # cs else old # replace_card new cs)"

fun insert_before :: "string \<Rightarrow> card \<Rightarrow> header \<Rightarrow> header" where
  "insert_before before new [] = [new]"
| "insert_before before new (old # cs) =
     (if fst old = before then new # old # cs else old # insert_before before new cs)"

text \<open>
  Modelled from the spec: \<^verbatim>\<open>Header.update(key, value, comment, before)\<close> belongs to the
  FITS library, which is not part of the sources. Section 9 of the specification gives
  its contract: a header is an ordered mapping from keyword to (value, comment); an
  existing keyword has its card rewritten in place, a new keyword is inserted before the
  sentinel card if there is one and appended otherwise.
\<close>

definition hdr_update :: "header \<Rightarrow> string \<Rightarrow> val \<Rightarrow> string \<Rightarrow> string \<Rightarrow> header" where
  "hdr_update hdr key v comment before =
     (if has_key hdr key then replace_card (key, v, comment) hdr
      else insert_before before (key, v, comment) hdr)"

text \<open>\<^verbatim>\<open>self.fobj[0].header[key]\<close>: IndexError on an empty file object.\<close>

definition primary_get :: "'d hdu list \<Rightarrow> string \<Rightarrow> error + val" where
  "primary_get fobj key =
     (case fobj of [] \<Rightarrow> Inl IndexError | p # _ \<Rightarrow> hdr_get (header p) key)"

section \<open>The external collaborators\<close>

text \<open>
  Three things the module imports are not part of the sources and are parameters of the
  model: \<^verbatim>\<open>fileutil.osfn\<close> (path resolution), \<^verbatim>\<open>pyfits.getdata(file, ext=(name, ver))\<close>
  (reading an array out of the reference file) and the table
  \<^verbatim>\<open>hstwcs.mappings.dgeo_vals\<close>, a dictionary from the instrument name to a dictionary
  of grid defaults. Either function may raise.
\<close>

record 'd env =
  osfn :: "val \<Rightarrow> error + val"
  getdata :: "val \<Rightarrow> string \<Rightarrow> val \<Rightarrow> error + 'd"
  dgeo_vals :: "val \<Rightarrow> (string \<Rightarrow> val option) option"

section \<open>The dictionary of existing lookup extensions\<close>

text \<open>
  \<^verbatim>\<open>getwcsindex\<close> builds a Python dictionary from the EXTVER value of every extension
  whose EXTNAME equals \<^verbatim>\<open>'WCSDVARR'\<close> to its position. The dictionary is an association
  list searched with Python equality; assigning to a key already present replaces its
  value.
\<close>

type_synonym wcsdict = "(val \<times> nat) list"

fun dict_get :: "wcsdict \<Rightarrow> val \<Rightarrow> nat option" where
  "dict_get [] key = None"
| "dict_get ((k, e) # d) key = (if py_eq k key then Some e else dict_get d key)"

fun dict_set :: "wcsdict \<Rightarrow> val \<Rightarrow> nat \<Rightarrow> wcsdict" where
  "dict_set [] key e = [(key, e)]"
| "dict_set ((k, e') # d) key e =
     (if py_eq k key then (k, e) # d else (k, e') # dict_set d key e)"

text \<open>
  The loop \<^verbatim>\<open>for e in range(len(self.fobj))\<close>: \<open>e\<close> is the position of the head of the
  remaining list. A missing EXTNAME is skipped; a WCSDVARR extension without EXTVER
  raises, the lookup being outside the \<^verbatim>\<open>try\<close>.
\<close>

fun getwcsindex_from :: "nat \<Rightarrow> 'd hdu list \<Rightarrow> wcsdict \<Rightarrow> error + wcsdict" where
  "getwcsindex_from e [] wcsd = Inr wcsd"
| "getwcsindex_from e (h # hs) wcsd =
     (case hdr_get (header h) ''EXTNAME'' of
        Inl err \<Rightarrow> getwcsindex_from (Suc e) hs wcsd
      | Inr ename \<Rightarrow>
          if py_eq ename (VStr ''WCSDVARR'') then
            (case hdr_get (header h) ''EXTVER'' of
               Inl err \<Rightarrow> Inl err
             | Inr v \<Rightarrow> getwcsindex_from (Suc e) hs (dict_set wcsd v e))
          else getwcsindex_from (Suc e) hs wcsd)"

definition getwcsindex :: "'d hdu list \<Rightarrow> error + wcsdict" where
  "getwcsindex fobj = getwcsindex_from 0 fobj []"

section \<open>Keywords of a science header\<close>

text \<open>
  \<^verbatim>\<open>addSciExtKw\<close>: with \<open>j = 1\<close> for \<^verbatim>\<open>'DX'\<close> and \<open>j = 2\<close> otherwise, the six cards written
  in the order of the list \<^verbatim>\<open>keys\<close>. The comment of the first one formats
  \<^verbatim>\<open>extver/2\<close>, the floor division of Python 2.
\<close>

definition axis_no :: "string \<Rightarrow> int" where
  "axis_no ename = (if ename = ''DX'' then 1 else 2)"

definition sci_cards :: "int \<Rightarrow> string \<Rightarrow> card list" where
  "sci_cards extver ename =
     (let j = str_int (axis_no ename) in
      [(''CPERROR'' @ j, VFloat 0,
          ''Maximum error of dgeo correction for axis '' @ str_int (extver div 2)),
       (''CPDIS'' @ j, VStr ''Lookup'', ''Prior distortion funcion type''),
       (''DP'' @ j @ ''.'' @ ''EXTVER'', VInt extver,
          ''Version number of WCSDVARR extension containing lookup distortion table''),
       (''DP'' @ j @ ''.'' @ ''NAXES'', VInt 2,
          ''Number of independent variables in distortion function''),
       (''DP'' @ j @ ''.'' @ ''AXIS.1'', VInt 1,
          ''Axis number of the jth independent variable in a distortion function''),
       (''DP'' @ j @ ''.'' @ ''AXIS.2'', VInt 2,
          ''Axis number of the jth independent variable in a distortion function'')])"

definition update_card :: "header \<Rightarrow> card \<Rightarrow> header" where
  "update_card hdr c = hdr_update hdr (fst c) (fst (snd c)) (snd (snd c)) ''HISTORY''"

definition dgeofile_comment :: string where
  "dgeofile_comment = ''DGEOFILE used to create WCSDVARR extensions''"

text \<open>
  The loop variable \<^verbatim>\<open>ext\<close> names an HDU object. It is the object at position \<open>i\<close> of the
  file object until an assignment \<^verbatim>\<open>self.fobj[i] = hdu\<close> replaces that position;
  from then on header updates through \<^verbatim>\<open>ext\<close> no longer reach the list. The model keeps
  the header of \<^verbatim>\<open>ext\<close> and a flag telling whether the object is still in the list at
  \<open>i\<close>. (The HDUs of a file object are taken to be distinct objects.)
\<close>

definition set_ext_header :: "nat \<Rightarrow> bool \<Rightarrow> header \<Rightarrow> 'd hdu list \<Rightarrow> 'd hdu list" where
  "set_ext_header i att hdr fobj =
     (if att then fobj[i := (fobj ! i)\<lparr>header := hdr\<rparr>] else fobj)"

definition addSciExtKw ::
  "nat \<Rightarrow> bool \<Rightarrow> int \<Rightarrow> string \<Rightarrow> 'd hdu list \<times> header \<Rightarrow>
     ('d hdu list \<times> header) \<times> error option" where
  "addSciExtKw i att extver ename s =
     (let hdr1 = foldl update_card (snd s) (sci_cards extver ename);
          fobj1 = set_ext_header i att hdr1 (fst s)
      in (case primary_get fobj1 ''DGEOFILE'' of
            Inl err \<Rightarrow> ((fobj1, hdr1), Some err)
          | Inr dgfile \<Rightarrow>
             (let hdr2 = update_card hdr1 (''DGEOFILE'', dgfile, dgeofile_comment)
              in ((set_ext_header i att hdr2 fobj1, hdr2), None))))"

definition updateDGEOkw ::
  "nat \<Rightarrow> bool \<Rightarrow> 'd hdu list \<times> header \<Rightarrow> ('d hdu list \<times> header) \<times> error option" where
  "updateDGEOkw i att s =
     (case primary_get (fst s) ''DGEOFILE'' of
        Inl err \<Rightarrow> (s, Some err)
      | Inr dgfile \<Rightarrow>
         (let hdr2 = update_card (snd s) (''DGEOFILE'', dgfile, dgeofile_comment)
          in ((set_ext_header i att hdr2 (fst s), hdr2), None)))"

section \<open>Building a lookup extension\<close>

text \<open>
  Sequencing of statements that may raise, dictionary subscription, and
  \<^verbatim>\<open>kw[name] or instr_vals[name]\<close>: the default is looked up only when the override is
  false.
\<close>

definition then_do :: "error + 'a \<Rightarrow> ('a \<Rightarrow> error + 'b) \<Rightarrow> error + 'b" where
  "then_do m f = (case m of Inl err \<Rightarrow> Inl err | Inr x \<Rightarrow> f x)"

definition item :: "('k \<Rightarrow> 'v option) \<Rightarrow> 'k \<Rightarrow> error + 'v" where
  "item d k = (case d k of None \<Rightarrow> Inl KeyError | Some v \<Rightarrow> Inr v)"

definition kw_or :: "(string \<Rightarrow> val option) \<Rightarrow> (string \<Rightarrow> val option) \<Rightarrow> string \<Rightarrow> error + val" where
  "kw_or kw instr_vals name =
     then_do (item kw name) (\<lambda>v. if truthy v then Inr v else item instr_vals name)"

text \<open>
  \<^verbatim>\<open>createDgeoHdr\<close>. The statements run in sequence and the first exception ends the
  call (\<open>then_do\<close>); \<open>item\<close> is dictionary subscription. The card CRPIX2 is given the
  variable \<^verbatim>\<open>crpix1\<close>, as in the dictionary \<^verbatim>\<open>values\<close> of the source.
\<close>

definition createDgeoHdr ::
  "'d env \<Rightarrow> 'd hdu list \<Rightarrow> (string \<Rightarrow> val option) \<Rightarrow> error + header" where
  "createDgeoHdr env fobj kw =
     then_do (primary_get fobj ''INSTRUME'') (\<lambda>instr.
     then_do (item (dgeo_vals env) instr) (\<lambda>instr_vals.
     then_do (kw_or kw instr_vals ''naxis1'') (\<lambda>naxis1.
     then_do (kw_or kw instr_vals ''naxis2'') (\<lambda>naxis2.
     then_do (kw_or kw instr_vals ''extver'') (\<lambda>extver.
     then_do (kw_or kw instr_vals ''crpix1'') (\<lambda>crpix1.
     then_do (kw_or kw instr_vals ''crpix2'') (\<lambda>crpix2.
     then_do (kw_or kw instr_vals ''cdelt1'') (\<lambda>cdelt1.
     then_do (kw_or kw instr_vals ''cdelt2'') (\<lambda>cdelt2.
     then_do (kw_or kw instr_vals ''crval1'') (\<lambda>crval1.
     then_do (kw_or kw instr_vals ''crval2'') (\<lambda>crval2.
     Inr [(''XTENSION'', VStr ''IMAGE'', ''Image extension''),
          (''BITPIX'', VInt (- 32), ''IEEE floating point''),
          (''NAXIS'', VInt 2, ''Number of image columns''),
          (''NAXIS1'', naxis1, ''Number of image columns''),
          (''NAXIS2'', naxis2, ''Number of image rows''),
          (''EXTNAME'', VStr ''WCSDVARR'', ''WCS distortion array''),
          (''EXTVER'', extver, ''Distortion array version number''),
          (''PCOUNT'', VInt 0, ''Special data area of size 0''),
          (''GCOUNT'', VInt 1, ''One data group''),
          (''CRPIX1'', crpix1, ''Distortion array reference pixel''),
          (''CDELT1'', cdelt1, ''Grid step size in first coordinate''),
          (''CRVAL1'', crval1, ''Image array pixel coordinate''),
          (''CRPIX2'', crpix1, ''Distortion array reference pixel''),
          (''CDELT2'', cdelt2, ''Grid step size in second coordinate''),
          (''CRVAL2'', crval2, ''Image array pixel coordinate'')])))))))))))"

text \<open>The override set that \<^verbatim>\<open>createDgeoHDU\<close> passes: only \<^verbatim>\<open>extver\<close> is set.\<close>

definition dgeokw :: "int \<Rightarrow> string \<Rightarrow> val option" where
  "dgeokw dgeover =
     map_of [(''naxis1'', VNone), (''naxis2'', VNone), (''extver'', VInt dgeover),
             (''crpix1'', VNone), (''crpix2'', VNone), (''cdelt1'', VNone),
             (''cdelt2'', VNone), (''crval1'', VNone), (''crval2'', VNone)]"

definition createDgeoHDU ::
  "'d env \<Rightarrow> 'd hdu list \<Rightarrow> val \<Rightarrow> int \<Rightarrow> string \<Rightarrow> val \<Rightarrow> error + 'd hdu" where
  "createDgeoHDU env fobj dgeofile dgeover ename extver =
     then_do (createDgeoHdr env fobj (dgeokw dgeover)) (\<lambda>hdr.
     then_do (getdata env dgeofile ename extver) (\<lambda>d.
     Inr \<lparr>header = hdr, hdata = Some d\<rparr>))"

section \<open>The traversal\<close>

text \<open>
  One round of \<^verbatim>\<open>for ename in ['DX', 'DY']\<close> for the extension at position \<open>i\<close>. The state
  is the file object, the counter \<^verbatim>\<open>dgeover\<close>, the header of \<^verbatim>\<open>ext\<close> and the flag of
  \<open>set_ext_header\<close>. Every result carries the state reached, also when an exception ends
  the call: the caller's file object keeps the mutations made so far.
\<close>

type_synonym 'd lstate = "'d hdu list \<times> int \<times> header \<times> bool"

definition axis_step ::
  "'d env \<Rightarrow> wcsdict \<Rightarrow> val \<Rightarrow> val \<Rightarrow> nat \<Rightarrow> string \<Rightarrow> 'd lstate \<Rightarrow> 'd lstate \<times> error option" where
  "axis_step env wcsdvarr_ind dgfile extversion i ename s =
     (let fobj = fst s; dgeover = fst (snd s) + 1; hdr = fst (snd (snd s));
          att = snd (snd (snd s));
          r = addSciExtKw i att dgeover ename (fobj, hdr);
          fobj1 = fst (fst r); hdr1 = snd (fst r)
      in (case snd r of
            Some err \<Rightarrow> ((fobj1, dgeover, hdr1, att), Some err)
          | None \<Rightarrow>
             (case createDgeoHDU env fobj1 dgfile dgeover ename extversion of
                Inl err \<Rightarrow> ((fobj1, dgeover, hdr1, att), Some err)
              | Inr h \<Rightarrow>
                 (if wcsdvarr_ind \<noteq> [] then
                    (case dict_get wcsdvarr_ind (VInt dgeover) of
                       None \<Rightarrow> ((fobj1, dgeover, hdr1, att), Some KeyError)
                     | Some k \<Rightarrow>
                        (if k < length fobj1
                         then ((fobj1[k := h], dgeover, hdr1, att \<and> k \<noteq> i), None)
                         else ((fobj1, dgeover, hdr1, att), Some IndexError)))
                  else ((fobj1 @ [h], dgeover, hdr1, att), None)))))"

fun axes_loop ::
  "'d env \<Rightarrow> wcsdict \<Rightarrow> val \<Rightarrow> val \<Rightarrow> nat \<Rightarrow> string list \<Rightarrow> 'd lstate \<Rightarrow> 'd lstate \<times> error option" where
  "axes_loop env wcsd dgfile extversion i [] s = (s, None)"
| "axes_loop env wcsd dgfile extversion i (ename # enames) s =
     (let r = axis_step env wcsd dgfile extversion i ename s
      in (case snd r of
            Some err \<Rightarrow> r
          | None \<Rightarrow> axes_loop env wcsd dgfile extversion i enames (fst r)))"

text \<open>The body of \<^verbatim>\<open>for ext in self.fobj\<close> for the extension at position \<open>i\<close>.\<close>

definition sci_body ::
  "'d env \<Rightarrow> wcsdict \<Rightarrow> val \<Rightarrow> nat \<Rightarrow> 'd hdu list \<times> int \<Rightarrow> ('d hdu list \<times> int) \<times> error option" where
  "sci_body env wcsd dgfile i s =
     (case hdr_get (header (fst s ! i)) ''EXTVER'' of
        Inl err \<Rightarrow> (s, Some err)
      | Inr extversion \<Rightarrow>
         (let r = axes_loop env wcsd dgfile extversion i [''DX'', ''DY'']
                    (fst s, snd s, header (fst s ! i), True);
              fobj1 = fst (fst r); dgeover1 = fst (snd (fst r));
              hdr1 = fst (snd (snd (fst r))); att = snd (snd (snd (fst r)))
          in (case snd r of
                Some err \<Rightarrow> ((fobj1, dgeover1), Some err)
              | None \<Rightarrow>
                 (let u = updateDGEOkw i att (fobj1, hdr1)
                  in ((fst (fst u), dgeover1), snd u)))))"

definition ext_body ::
  "'d env \<Rightarrow> wcsdict \<Rightarrow> val \<Rightarrow> nat \<Rightarrow> 'd hdu list \<times> int \<Rightarrow> ('d hdu list \<times> int) \<times> error option" where
  "ext_body env wcsd dgfile i s =
     (case hdr_get (header (fst s ! i)) ''EXTNAME'' of
        Inl err \<Rightarrow> (s, None)
      | Inr v \<Rightarrow>
         (case lower v of
            Inl err \<Rightarrow> (s, Some err)
          | Inr extname \<Rightarrow>
             (if extname = ''sci'' then sci_body env wcsd dgfile i s else (s, None))))"

section \<open>Science extensions and termination of the traversal\<close>

text \<open>
  An extension is a science extension when the test of \<^verbatim>\<open>applyDgeoCorr\<close> takes it: it has
  an EXTNAME, a string, whose lower-case form is \<^verbatim>\<open>'sci'\<close>. The traversal
  \<^verbatim>\<open>for ext in self.fobj\<close> walks the list by position while the body appends to it, so
  it also visits the extensions appended on the way. It ends because a new extension is
  a WCSDVARR extension and never a science extension.
\<close>

definition is_sci :: "'d hdu \<Rightarrow> bool" where
  "is_sci h =
     (case hdr_get (header h) ''EXTNAME'' of Inl err \<Rightarrow> False | Inr v \<Rightarrow> lower v = Inr ''sci'')"

definition sci_count :: "nat \<Rightarrow> 'd hdu list \<Rightarrow> nat" where
  "sci_count i fobj = length (filter is_sci (drop i fobj))"

lemma lower_lit: "lower (VStr ''WCSDVARR'') = Inr ''wcsdvarr''" "lower (VStr ''SCI'') = Inr ''sci''"
  "lower (VStr ''Sci'') = Inr ''sci''"
  by (simp_all add: lower_def lower_char_def)

lemma then_do_Inr: "then_do m f = Inr y \<longleftrightarrow> (\<exists>x. m = Inr x \<and> f x = Inr y)"
  by (cases m) (simp_all add: then_do_def)

lemma createDgeoHdr_extname:
  "createDgeoHdr env fobj kw = Inr hdr \<Longrightarrow> hdr_get hdr ''EXTNAME'' = Inr (VStr ''WCSDVARR'')"
  unfolding createDgeoHdr_def then_do_Inr by auto

lemma createDgeoHDU_extname:
  "createDgeoHDU env fobj f v ename x = Inr h \<Longrightarrow> hdr_get (header h) ''EXTNAME'' = Inr (VStr ''WCSDVARR'')"
  unfolding createDgeoHDU_def then_do_Inr by (auto dest: createDgeoHdr_extname)

lemma createDgeoHDU_not_sci: "createDgeoHDU env fobj f v ename x = Inr h \<Longrightarrow> \<not> is_sci h"
  by (simp add: is_sci_def createDgeoHDU_extname lower_lit)

lemma sci_count_update_le: "\<not> is_sci h \<Longrightarrow> sci_count n (xs[k := h]) \<le> sci_count n xs"
proof (induction xs arbitrary: n k)
  case Nil
  then show ?case by simp
next
  case (Cons x xs)
  show ?case
  proof (cases n)
    case 0
    then show ?thesis using Cons.IH[of 0] Cons.prems
      by (cases k) (auto simp: sci_count_def le_SucI)
  next
    case (Suc m)
    then show ?thesis using Cons.IH[of m] Cons.prems
      by (cases k) (auto simp: sci_count_def)
  qed
qed

lemma sci_count_append: "\<not> is_sci h \<Longrightarrow> sci_count n (xs @ [h]) = sci_count n xs"
  by (auto simp: sci_count_def filter_empty_conv dest: in_set_dropD)

lemma sci_count_set_ext: "sci_count (Suc i) (set_ext_header i att hdr fobj) = sci_count (Suc i) fobj"
  by (simp add: sci_count_def set_ext_header_def)

lemma length_set_ext [simp]: "length (set_ext_header i att hdr fobj) = length fobj"
  by (simp add: set_ext_header_def)

lemma addSciExtKw_frame:
  "length (fst (fst (addSciExtKw i att v ename s))) = length (fst s)"
  "sci_count (Suc i) (fst (fst (addSciExtKw i att v ename s))) = sci_count (Suc i) (fst s)"
  by (simp_all add: addSciExtKw_def Let_def sci_count_set_ext split: sum.splits)

lemma updateDGEOkw_frame:
  "length (fst (fst (updateDGEOkw i att s))) = length (fst s)"
  "sci_count (Suc i) (fst (fst (updateDGEOkw i att s))) = sci_count (Suc i) (fst s)"
  by (simp_all add: updateDGEOkw_def Let_def sci_count_set_ext split: sum.splits)

lemma axis_step_frame:
  "length (fst (fst (axis_step env wcsd dgfile x i ename s))) \<le> Suc (length (fst s))"
  "sci_count (Suc i) (fst (fst (axis_step env wcsd dgfile x i ename s))) \<le> sci_count (Suc i) (fst s)"
  by (auto simp: axis_step_def Let_def addSciExtKw_frame sci_count_append sci_count_update_le
      createDgeoHDU_not_sci intro: order_trans[OF sci_count_update_le]
      split: option.splits sum.splits)


lemma axes_loop_length:
  "length (fst (fst (axes_loop env wcsd dgfile x i enames s))) \<le> length enames + length (fst s)"
proof (induction enames arbitrary: s)
  case Nil
  show ?case by simp
next
  case (Cons ename enames)
  let ?r = "axis_step env wcsd dgfile x i ename s"
  have a: "length (fst (fst ?r)) \<le> Suc (length (fst s))"
    by (rule axis_step_frame)
  show ?case
  proof (cases "snd ?r")
    case None
    then have "axes_loop env wcsd dgfile x i (ename # enames) s
               = axes_loop env wcsd dgfile x i enames (fst ?r)"
      by (simp add: Let_def)
    then show ?thesis using Cons.IH[of "fst ?r"] a by simp
  next
    case (Some err)
    then have "axes_loop env wcsd dgfile x i (ename # enames) s = ?r"
      by (simp add: Let_def)
    then show ?thesis using a by simp
  qed
qed

lemma axes_loop_sci_count:
  "sci_count (Suc i) (fst (fst (axes_loop env wcsd dgfile x i enames s))) \<le> sci_count (Suc i) (fst s)"
proof (induction enames arbitrary: s)
  case Nil
  show ?case by simp
next
  case (Cons ename enames)
  let ?r = "axis_step env wcsd dgfile x i ename s"
  have b: "sci_count (Suc i) (fst (fst ?r)) \<le> sci_count (Suc i) (fst s)"
    by (rule axis_step_frame)
  show ?case
  proof (cases "snd ?r")
    case None
    then have "axes_loop env wcsd dgfile x i (ename # enames) s
               = axes_loop env wcsd dgfile x i enames (fst ?r)"
      by (simp add: Let_def)
    then show ?thesis using Cons.IH[of "fst ?r"] b by simp
  next
    case (Some err)
    then have "axes_loop env wcsd dgfile x i (ename # enames) s = ?r"
      by (simp add: Let_def)
    then show ?thesis using b by simp
  qed
qed

lemmas axes_loop_frame = axes_loop_length axes_loop_sci_count

lemma sci_count_Suc: "i < length fobj \<Longrightarrow> is_sci (fobj ! i) \<Longrightarrow> sci_count i fobj = Suc (sci_count (Suc i) fobj)"
  by (simp add: sci_count_def Cons_nth_drop_Suc[symmetric])

lemma sci_count_Suc_le: "sci_count (Suc i) fobj \<le> sci_count i fobj"
  by (cases "i < length fobj") (simp_all add: sci_count_def Cons_nth_drop_Suc[symmetric])

lemma sci_body_frame:
  "length (fst (fst (sci_body env wcsd dgfile i s))) \<le> 2 + length (fst s)"
  "sci_count (Suc i) (fst (fst (sci_body env wcsd dgfile i s))) \<le> sci_count (Suc i) (fst s)"
  using axes_loop_frame[where env=env and wcsd=wcsd and dgfile=dgfile and i=i
      and enames="[''DX'', ''DY'']" and s="(fst s, snd s, header (fst s ! i), True)"]
  by (auto simp: sci_body_def Let_def updateDGEOkw_frame split: sum.splits option.splits)

lemma ext_body_measure:
  assumes "i < length (fst s)" "snd (ext_body env wcsd dgfile i s) = None"
  shows "3 * sci_count (Suc i) (fst (fst (ext_body env wcsd dgfile i s)))
           + (length (fst (fst (ext_body env wcsd dgfile i s))) - Suc i)
         < 3 * sci_count i (fst s) + (length (fst s) - i)"
proof (cases "is_sci (fst s ! i)")
  case True
  then have eq: "ext_body env wcsd dgfile i s = sci_body env wcsd dgfile i s"
    by (auto simp: ext_body_def is_sci_def split: sum.splits)
  show ?thesis
    using sci_body_frame[where env=env and wcsd=wcsd and dgfile=dgfile and i=i and s=s]
      sci_count_Suc[OF assms(1) True] assms(1)
    unfolding eq by linarith
next
  case False
  then have eq: "fst (ext_body env wcsd dgfile i s) = s"
    by (auto simp: ext_body_def is_sci_def split: sum.splits)
  show ?thesis
    using sci_count_Suc_le[of i "fst s"] assms(1) unfolding eq by linarith
qed

text \<open>
  \<^verbatim>\<open>for ext in self.fobj\<close>: the list iterator holds a position and compares it with the
  current length before every round. An exception ends the traversal at once.
\<close>

function ext_loop ::
  "'d env \<Rightarrow> wcsdict \<Rightarrow> val \<Rightarrow> nat \<Rightarrow> 'd hdu list \<times> int \<Rightarrow> ('d hdu list \<times> int) \<times> error option" where
  "ext_loop env wcsd dgfile i s =
     (if i < length (fst s) then
        (let r = ext_body env wcsd dgfile i s
         in (case snd r of
               Some err \<Rightarrow> r
             | None \<Rightarrow> ext_loop env wcsd dgfile (Suc i) (fst r)))
      else (s, None))"
  by pat_completeness auto
termination
proof (relation "measure (\<lambda>(env, wcsd, dgfile, i, s). 3 * sci_count i (fst s) + (length (fst s) - i))",
    goal_cases)
  case 1
  show ?case by simp
next
  case (2 env wcsd dgfile i s r)
  then have "snd (ext_body env wcsd dgfile i s) = None"
    by simp
  from ext_body_measure[OF 2(1) this] show ?case
    using 2(2) by simp
qed

declare ext_loop.simps [simp del]

text \<open>
  \<^verbatim>\<open>applyDgeoCorr\<close>. The result is the file object as the call leaves it and the exception
  raised, if any. The keyword DGEOFILE is read and resolved, then the existing lookup
  extensions are indexed, both before the traversal.
\<close>

definition applyDgeoCorr :: "'d env \<Rightarrow> 'd hdu list \<Rightarrow> 'd hdu list \<times> error option" where
  "applyDgeoCorr env fobj =
     (case primary_get fobj ''DGEOFILE'' of
        Inl err \<Rightarrow> (fobj, Some err)
      | Inr v \<Rightarrow>
         (case osfn env v of
            Inl err \<Rightarrow> (fobj, Some err)
          | Inr dgfile \<Rightarrow>
             (case getwcsindex fobj of
                Inl err \<Rightarrow> (fobj, Some err)
              | Inr wcsdvarr_ind \<Rightarrow>
                 (let r = ext_loop env wcsdvarr_ind dgfile 0 (fobj, 0)
                  in (fst (fst r), snd r)))))"


section \<open>A sample reference file, instrument table and file objects\<close>

text \<open>
  Concrete inputs for the closed theorems below: a path resolver that prefixes a
  directory, a reference file \<^verbatim>\<open>/ref/d.fits\<close> whose array for (name, version) is
  represented by that pair, and a table with one instrument.
\<close>

definition acs_vals :: "string \<Rightarrow> val option" where
  "acs_vals = map_of [(''naxis1'', VInt 65), (''naxis2'', VInt 33), (''extver'', VInt 1),
     (''crpix1'', VFloat (67 / 2)), (''crpix2'', VFloat (33 / 2)), (''cdelt1'', VFloat 1),
     (''cdelt2'', VFloat 1), (''crval1'', VFloat 2048), (''crval2'', VFloat 1024)]"

definition ref_env :: "(string \<times> val) env" where
  "ref_env =
     \<lparr>osfn = (\<lambda>v. case v of VStr s \<Rightarrow> Inr (VStr (''/ref/'' @ s)) | _ \<Rightarrow> Inl TypeError),
      getdata = (\<lambda>f ename x. if f = VStr ''/ref/d.fits'' then Inr (ename, x) else Inl IOError),
      dgeo_vals = (\<lambda>v. if v = VStr ''ACS'' then Some acs_vals else None)\<rparr>"

definition primary_hdu :: "string \<Rightarrow> (string \<times> val) hdu" where
  "primary_hdu instr =
     \<lparr>header = [(''SIMPLE'', VBool True, []), (''INSTRUME'', VStr instr, []),
                (''DGEOFILE'', VStr ''d.fits'', [])],
      hdata = None\<rparr>"

definition image_hdu :: "string \<Rightarrow> int \<Rightarrow> (string \<times> val) hdu" where
  "image_hdu name v =
     \<lparr>header = [(''EXTNAME'', VStr name, []), (''EXTVER'', VInt v, []),
                (''HISTORY'', VStr ''calibrated'', [])],
      hdata = Some (''image'', VInt v)\<rparr>"



section \<open>Properties\<close>

lemma hdr_get_KeyError: "hdr_get hdr key = Inl err \<longleftrightarrow> err = KeyError \<and> \<not> has_key hdr key"
  by (induction hdr) (auto simp: has_key_def split: if_splits)

text \<open>
  C10: when the primary header has no DGEOFILE keyword the call raises KeyError before
  anything is changed: the file object it leaves is the one it was given, every header
  and every data array included.
\<close>

theorem missing_dgeofile_no_mutation:
  "fobj = p # rest \<Longrightarrow> \<not> has_key (header p) ''DGEOFILE'' \<Longrightarrow>
     applyDgeoCorr env fobj = (fobj, Some KeyError)"
proof -
  assume f: "fobj = p # rest" and k: "\<not> has_key (header p) ''DGEOFILE''"
  from k have "hdr_get (header p) ''DGEOFILE'' = Inl KeyError"
    using hdr_get_KeyError[of "header p" "''DGEOFILE''" KeyError] by simp
  then show ?thesis
    by (simp add: applyDgeoCorr_def primary_get_def f)
qed

theorem missing_dgeofile_no_mutation_witness:
  "applyDgeoCorr ref_env [\<lparr>header = [(''INSTRUME'', VStr ''ACS'', [])], hdata = None\<rparr>, image_hdu ''SCI'' 1]
     = ([\<lparr>header = [(''INSTRUME'', VStr ''ACS'', [])], hdata = None\<rparr>, image_hdu ''SCI'' 1], Some KeyError)"
  using missing_dgeofile_no_mutation[of
      "[\<lparr>header = [(''INSTRUME'', VStr ''ACS'', [])], hdata = None\<rparr>, image_hdu ''SCI'' 1]"
      "\<lparr>header = [(''INSTRUME'', VStr ''ACS'', [])], hdata = None\<rparr>" "[image_hdu ''SCI'' 1]" ref_env]
  by (simp add: has_key_def)

text \<open>
  C6: the claim wants CRPIX2 to be the instrument default \<^verbatim>\<open>crpix2\<close> when no override is
  given. For an instrument whose defaults are crpix1 = 33.5 and crpix2 = 16.5 the header
  built has CRPIX2 = 33.5: the card is filled from the variable \<^verbatim>\<open>crpix1\<close>.
\<close>

theorem crpix2_takes_crpix1:
  "then_do (createDgeoHdr ref_env [primary_hdu ''ACS''] (dgeokw 1)) (\<lambda>hdr. hdr_get hdr ''CRPIX2'')
     = Inr (VFloat (67 / 2))
   \<and> then_do (item (dgeo_vals ref_env) (VStr ''ACS'')) (\<lambda>d. item d ''crpix2'') = Inr (VFloat (33 / 2))"
  by code_simp

text \<open>
  C3: a file with one science extension and an existing lookup extension of EXTVER 1
  only. The index found is not empty, so the second lookup version is looked up in it
  and the call ends with KeyError; nothing is appended.
\<close>

theorem partial_slots_raise:
  "getwcsindex [primary_hdu ''ACS'', image_hdu ''SCI'' 1, image_hdu ''WCSDVARR'' 1] = Inr [(VInt 1, 2)]
   \<and> snd (applyDgeoCorr ref_env [primary_hdu ''ACS'', image_hdu ''SCI'' 1, image_hdu ''WCSDVARR'' 1])
       = Some KeyError
   \<and> length (fst (applyDgeoCorr ref_env [primary_hdu ''ACS'', image_hdu ''SCI'' 1, image_hdu ''WCSDVARR'' 1]))
       = 3"
  by code_simp

text \<open>
  C9: the science test lower-cases EXTNAME, the index of existing lookup extensions
  compares it with \<^verbatim>\<open>'WCSDVARR'\<close> as it is. Two extensions named \<^verbatim>\<open>'wcsdvarr'\<close> are not
  found, and the call appends two new lookup extensions instead of overwriting them.
\<close>

theorem lower_case_lookup_not_found:
  "getwcsindex [primary_hdu ''ACS'', image_hdu ''SCI'' 1, image_hdu ''wcsdvarr'' 1, image_hdu ''wcsdvarr'' 2]
     = Inr []
   \<and> snd (applyDgeoCorr ref_env
        [primary_hdu ''ACS'', image_hdu ''SCI'' 1, image_hdu ''wcsdvarr'' 1, image_hdu ''wcsdvarr'' 2]) = None
   \<and> map (\<lambda>h. hdr_get (header h) ''EXTNAME'') (fst (applyDgeoCorr ref_env
        [primary_hdu ''ACS'', image_hdu ''SCI'' 1, image_hdu ''wcsdvarr'' 1, image_hdu ''wcsdvarr'' 2]))
     = [Inl KeyError, Inr (VStr ''SCI''), Inr (VStr ''wcsdvarr''), Inr (VStr ''wcsdvarr''),
        Inr (VStr ''WCSDVARR''), Inr (VStr ''WCSDVARR'')]"
  by code_simp



subsection \<open>Headers\<close>

lemma hdr_get_Inr_has_key: "hdr_get hdr k = Inr v \<Longrightarrow> has_key hdr k"
  by (induction hdr) (auto simp: has_key_def split: if_splits)

lemma has_key_Cons: "has_key (c # hdr) k \<longleftrightarrow> fst c = k \<or> has_key hdr k"
  by (auto simp: has_key_def)

lemma has_key_Nil [simp]: "\<not> has_key [] k"
  by (simp add: has_key_def)

lemma hdr_get_Cons: "hdr_get (c # cs) key = (if fst c = key then Inr (fst (snd c)) else hdr_get cs key)"
  by (cases c) simp

lemma has_key_replace [simp]: "has_key (replace_card c hdr) k = has_key hdr k"
  by (induction hdr) (auto simp: has_key_Cons)

lemma has_key_insert [simp]: "has_key (insert_before b c hdr) k \<longleftrightarrow> k = fst c \<or> has_key hdr k"
  by (induction hdr) (auto simp: has_key_Cons)

lemma hdr_get_replace:
  "hdr_get (replace_card c hdr) k = (if k = fst c \<and> has_key hdr k then Inr (fst (snd c)) else hdr_get hdr k)"
  by (induction hdr) (auto simp: has_key_Cons hdr_get_Cons)

lemma hdr_get_insert:
  "\<not> has_key hdr (fst c) \<Longrightarrow>
     hdr_get (insert_before b c hdr) k = (if k = fst c then Inr (fst (snd c)) else hdr_get hdr k)"
  by (induction hdr) (auto simp: has_key_Cons hdr_get_Cons)

lemma hdr_get_update_card:
  "hdr_get (update_card hdr c) k = (if k = fst c then Inr (fst (snd c)) else hdr_get hdr k)"
  by (simp add: update_card_def hdr_update_def hdr_get_replace hdr_get_insert)

lemma has_key_update_card [simp]: "has_key (update_card hdr c) k \<longleftrightarrow> k = fst c \<or> has_key hdr k"
  by (auto simp: update_card_def hdr_update_def)

lemma hdr_get_foldl_other:
  "k \<notin> fst ` set cs \<Longrightarrow> hdr_get (foldl update_card hdr cs) k = hdr_get hdr k"
  by (induction cs arbitrary: hdr) (auto simp: hdr_get_update_card)

lemma str_int_1_2: "str_int 1 = ''1''" "str_int 2 = ''2''"
  by (simp_all add: str_int_def str_nat.simps digit_char_def)

lemma sci_cards_keys:
  "map fst (sci_cards v ename) =
     (if ename = ''DX''
      then [''CPERROR1'', ''CPDIS1'', ''DP1.EXTVER'', ''DP1.NAXES'', ''DP1.AXIS.1'', ''DP1.AXIS.2'']
      else [''CPERROR2'', ''CPDIS2'', ''DP2.EXTVER'', ''DP2.NAXES'', ''DP2.AXIS.1'', ''DP2.AXIS.2''])"
  by (simp add: sci_cards_def axis_no_def str_int_1_2 Let_def)

definition kept_key :: "string \<Rightarrow> bool" where
  "kept_key k \<longleftrightarrow> k \<in> {''EXTNAME'', ''EXTVER'', ''INSTRUME'', ''DGEOFILE''}"

lemma kept_key_not_sci_card: "kept_key k \<Longrightarrow> k \<notin> fst ` set (sci_cards v ename)"
proof -
  assume k: "kept_key k"
  have "fst ` set (sci_cards v ename) = set (map fst (sci_cards v ename))" by simp
  also have "k \<notin> \<dots>" using k unfolding sci_cards_keys by (auto simp: kept_key_def)
  finally show ?thesis .
qed

lemma hdr_get_sci_cards_kept:
  "kept_key k \<Longrightarrow> hdr_get (foldl update_card hdr (sci_cards v ename)) k = hdr_get hdr k"
  by (rule hdr_get_foldl_other) (rule kept_key_not_sci_card)



subsection \<open>What a call may touch\<close>

definition sci_header :: "header \<Rightarrow> bool" where
  "sci_header hdr =
     (case hdr_get hdr ''EXTNAME'' of Inl err \<Rightarrow> False | Inr v \<Rightarrow> lower v = Inr ''sci'')"

definition lookup_named :: "'d hdu \<Rightarrow> bool" where
  "lookup_named h \<longleftrightarrow> hdr_get (header h) ''EXTNAME'' = Inr (VStr ''WCSDVARR'')"

lemma is_sci_header: "is_sci h = sci_header (header h)"
  by (simp add: is_sci_def sci_header_def)

lemma lookup_named_not_sci: "lookup_named h \<Longrightarrow> \<not> is_sci h"
  by (simp add: lookup_named_def is_sci_def lower_lit)

lemma sci_header_cong: "hdr_get h' ''EXTNAME'' = hdr_get h ''EXTNAME'' \<Longrightarrow> sci_header h' = sci_header h"
  by (simp add: sci_header_def)

definition touched :: "nat set \<Rightarrow> 'd hdu list \<Rightarrow> 'd hdu list \<Rightarrow> bool" where
  "touched S old new \<longleftrightarrow>
     length old \<le> length new \<and>
     (\<forall>p < length old.
        new ! p = old ! p
        \<or> (is_sci (old ! p) \<and> is_sci (new ! p) \<and> hdata (new ! p) = hdata (old ! p))
        \<or> (p \<in> S \<and> lookup_named (new ! p)))"

lemma touched_refl: "touched S old old"
  by (simp add: touched_def)

lemma touched_append: "touched S old cur \<Longrightarrow> touched S old (cur @ [h])"
  by (auto simp: touched_def nth_append)

lemma touched_write:
  assumes "touched S old cur" "k \<in> S" "lookup_named h"
  shows "touched S old (cur[k := h])"
  unfolding touched_def
proof (intro conjI allI impI)
  show "length old \<le> length (cur[k := h])"
    using assms(1) by (simp add: touched_def)
next
  fix p assume p: "p < length old"
  then have pc: "p < length cur" using assms(1) by (simp add: touched_def)
  show "cur[k := h] ! p = old ! p
      \<or> (is_sci (old ! p) \<and> is_sci (cur[k := h] ! p) \<and> hdata (cur[k := h] ! p) = hdata (old ! p))
      \<or> (p \<in> S \<and> lookup_named (cur[k := h] ! p))"
  proof (cases "p = k")
    case True
    then show ?thesis using pc assms(2,3) by simp
  next
    case False
    then have "cur[k := h] ! p = cur ! p" by simp
    then show ?thesis using assms(1) p by (simp add: touched_def)
  qed
qed

lemma touched_set_ext:
  assumes "touched S old cur" "sci_header h'" "att \<longrightarrow> i < length cur \<and> is_sci (cur ! i)"
  shows "touched S old (set_ext_header i att h' cur)"
proof (cases att)
  case False
  then show ?thesis using assms by (simp add: set_ext_header_def)
next
  case True
  with assms have i: "i < length cur" "is_sci (cur ! i)" by auto
  show ?thesis
    unfolding touched_def
  proof (intro conjI allI impI)
    show "length old \<le> length (set_ext_header i att h' cur)"
      using assms(1) by (simp add: touched_def)
  next
    fix p assume p: "p < length old"
    show "set_ext_header i att h' cur ! p = old ! p
        \<or> (is_sci (old ! p) \<and> is_sci (set_ext_header i att h' cur ! p)
             \<and> hdata (set_ext_header i att h' cur ! p) = hdata (old ! p))
        \<or> (p \<in> S \<and> lookup_named (set_ext_header i att h' cur ! p))"
    proof (cases "p = i")
      case False
      then show ?thesis using assms(1) p True
        by (auto simp: touched_def set_ext_header_def)
    next
      case pi: True
      from assms(1) p have
        "cur ! p = old ! p
         \<or> (is_sci (old ! p) \<and> is_sci (cur ! p) \<and> hdata (cur ! p) = hdata (old ! p))
         \<or> (p \<in> S \<and> lookup_named (cur ! p))"
        by (simp add: touched_def)
      then have "is_sci (old ! p) \<and> hdata (cur ! p) = hdata (old ! p)"
        using i pi lookup_named_not_sci by auto
      then show ?thesis
        using True pi i assms(2) by (simp add: set_ext_header_def is_sci_header)
    qed
  qed
qed

lemma set_ext_header_nth_sci:
  "att \<Longrightarrow> i < length cur \<Longrightarrow> sci_header h' \<Longrightarrow> is_sci (set_ext_header i att h' cur ! i)"
  by (simp add: set_ext_header_def is_sci_header)

definition ax_inv :: "nat set \<Rightarrow> 'd hdu list \<Rightarrow> nat \<Rightarrow> 'd lstate \<Rightarrow> bool" where
  "ax_inv S old i s \<longleftrightarrow>
     touched S old (fst s) \<and> sci_header (fst (snd (snd s)))
     \<and> (snd (snd (snd s)) \<longrightarrow> i < length (fst s) \<and> is_sci (fst s ! i))"

lemma sci_header_sci_cards:
  "sci_header (foldl update_card hdr (sci_cards v ename)) = sci_header hdr"
  by (rule sci_header_cong) (simp add: hdr_get_sci_cards_kept kept_key_def)

lemma sci_header_dgeofile:
  "sci_header (update_card hdr (''DGEOFILE'', v, c)) = sci_header hdr"
  by (rule sci_header_cong) (simp add: hdr_get_update_card)

lemma addSciExtKw_inv:
  assumes "touched S old fobj" "sci_header hdr" "att \<longrightarrow> i < length fobj \<and> is_sci (fobj ! i)"
  shows "touched S old (fst (fst (addSciExtKw i att v ename (fobj, hdr))))"
    and "sci_header (snd (fst (addSciExtKw i att v ename (fobj, hdr))))"
    and "att \<longrightarrow> is_sci (fst (fst (addSciExtKw i att v ename (fobj, hdr))) ! i)"
proof -
  let ?h1 = "foldl update_card hdr (sci_cards v ename)"
  let ?f1 = "set_ext_header i att ?h1 fobj"
  have h1: "sci_header ?h1" using assms(2) by (simp add: sci_header_sci_cards)
  have t1: "touched S old ?f1" using assms h1 by (intro touched_set_ext) auto
  have a1: "att \<longrightarrow> i < length ?f1 \<and> is_sci (?f1 ! i)"
    using assms(3) h1 by (auto simp: set_ext_header_nth_sci)
  show "touched S old (fst (fst (addSciExtKw i att v ename (fobj, hdr))))"
    using t1 a1 h1
    by (auto simp: addSciExtKw_def Let_def sci_header_dgeofile split: sum.splits
        intro!: touched_set_ext)
  show "sci_header (snd (fst (addSciExtKw i att v ename (fobj, hdr))))"
    using h1 by (auto simp: addSciExtKw_def Let_def sci_header_dgeofile split: sum.splits)
  show "att \<longrightarrow> is_sci (fst (fst (addSciExtKw i att v ename (fobj, hdr))) ! i)"
    using a1 h1
    by (auto simp: addSciExtKw_def Let_def sci_header_dgeofile set_ext_header_nth_sci
        split: sum.splits)
qed

lemma updateDGEOkw_touched:
  assumes "touched S old fobj" "sci_header hdr" "att \<longrightarrow> i < length fobj \<and> is_sci (fobj ! i)"
  shows "touched S old (fst (fst (updateDGEOkw i att (fobj, hdr))))"
  using assms
  by (auto simp: updateDGEOkw_def Let_def sci_header_dgeofile split: sum.splits
      intro!: touched_set_ext)

definition slots :: "wcsdict \<Rightarrow> nat set" where
  "slots d = {k. \<exists>a. dict_get d a = Some k}"

lemma dict_get_in: "dict_get d a = Some k \<Longrightarrow> k \<in> slots d"
  by (auto simp: slots_def)

lemma createDgeoHDU_lookup_named:
  "createDgeoHDU env fobj f v ename x = Inr h \<Longrightarrow> lookup_named h"
  by (simp add: lookup_named_def createDgeoHDU_extname)

lemma axis_step_inv:
  assumes "ax_inv (slots wcsd) old i s"
  shows "ax_inv (slots wcsd) old i (fst (axis_step env wcsd dgfile x i ename s))"
proof -
  obtain fobj dg hdr att where s: "s = (fobj, dg, hdr, att)" by (cases s) auto
  let ?S = "slots wcsd"
  let ?r = "addSciExtKw i att (dg + 1) ename (fobj, hdr)"
  let ?f1 = "fst (fst ?r)" and ?h1 = "snd (fst ?r)"
  from assms s have pre: "touched ?S old fobj" "sci_header hdr"
    "att \<longrightarrow> i < length fobj \<and> is_sci (fobj ! i)"
    by (auto simp: ax_inv_def)
  have t1: "touched ?S old ?f1" and h1: "sci_header ?h1" and a1: "att \<longrightarrow> is_sci (?f1 ! i)"
    using addSciExtKw_inv[OF pre] by auto
  have l1: "length ?f1 = length fobj"
    using addSciExtKw_frame(1)[of i att "dg + 1" ename "(fobj, hdr)"] by simp
  have base: "ax_inv ?S old i (?f1, dg + 1, ?h1, att)"
    using t1 h1 a1 pre(3) l1 by (auto simp: ax_inv_def)
  have wr: "ax_inv ?S old i (?f1[k := h], dg + 1, ?h1, att \<and> k \<noteq> i)"
    if "dict_get wcsd (VInt (dg + 1)) = Some k" "lookup_named h" for k h
    using touched_write[OF t1 dict_get_in[OF that(1)] that(2)] h1 a1 pre(3) l1
    by (auto simp: ax_inv_def)
  have ap: "ax_inv ?S old i (?f1 @ [h], dg + 1, ?h1, att)" for h
    using touched_append[OF t1] h1 a1 pre(3) l1
    by (auto simp: ax_inv_def nth_append)
  show ?thesis
    unfolding s axis_step_def Let_def
    using base wr ap
    by (auto split: option.splits sum.splits dest: createDgeoHDU_lookup_named)
qed

lemma axes_loop_inv:
  "ax_inv (slots wcsd) old i s \<Longrightarrow>
     ax_inv (slots wcsd) old i (fst (axes_loop env wcsd dgfile x i enames s))"
proof (induction enames arbitrary: s)
  case Nil
  then show ?case by simp
next
  case (Cons ename enames)
  let ?r = "axis_step env wcsd dgfile x i ename s"
  have r: "ax_inv (slots wcsd) old i (fst ?r)"
    by (rule axis_step_inv) (rule Cons.prems)
  show ?case
  proof (cases "snd ?r")
    case None
    then show ?thesis using Cons.IH[OF r] by (simp add: Let_def)
  next
    case (Some err)
    then show ?thesis using r by (simp add: Let_def)
  qed
qed

lemma sci_body_touched:
  assumes "touched (slots wcsd) old cur" "i < length cur" "is_sci (cur ! i)"
  shows "touched (slots wcsd) old (fst (fst (sci_body env wcsd dgfile i (cur, dg))))"
proof (cases "hdr_get (header (cur ! i)) ''EXTVER''")
  case (Inl err)
  then show ?thesis using assms(1) by (simp add: sci_body_def)
next
  case (Inr x)
  let ?r = "axes_loop env wcsd dgfile x i [''DX'', ''DY''] (cur, dg, header (cur ! i), True)"
  have "ax_inv (slots wcsd) old i (cur, dg, header (cur ! i), True)"
    using assms by (simp add: ax_inv_def is_sci_header)
  then have inv: "ax_inv (slots wcsd) old i (fst ?r)"
    by (rule axes_loop_inv)
  show ?thesis
  proof (cases "snd ?r")
    case (Some err)
    then show ?thesis using inv Inr by (simp add: sci_body_def Let_def ax_inv_def)
  next
    case None
    have "touched (slots wcsd) old
            (fst (fst (updateDGEOkw i (snd (snd (snd (fst ?r)))) (fst (fst ?r), fst (snd (snd (fst ?r)))))))"
      using inv by (intro updateDGEOkw_touched) (auto simp: ax_inv_def)
    then show ?thesis using Inr None by (simp add: sci_body_def Let_def)
  qed
qed

lemma ext_body_cases:
  "is_sci (fst s ! i) \<Longrightarrow> ext_body env wcsd dgfile i s = sci_body env wcsd dgfile i s"
  "\<not> is_sci (fst s ! i) \<Longrightarrow> fst (ext_body env wcsd dgfile i s) = s"
  by (auto simp: ext_body_def is_sci_def split: sum.splits)

lemma ext_body_touched:
  assumes "touched (slots wcsd) old cur" "i < length cur"
  shows "touched (slots wcsd) old (fst (fst (ext_body env wcsd dgfile i (cur, dg))))"
proof (cases "is_sci (cur ! i)")
  case True
  then show ?thesis using sci_body_touched[OF assms True] by (simp add: ext_body_cases)
next
  case False
  then show ?thesis using assms(1) by (simp add: ext_body_cases)
qed

lemma ext_loop_touched:
  "touched (slots wcsd) old (fst s) \<Longrightarrow>
     touched (slots wcsd) old (fst (fst (ext_loop env wcsd dgfile i s)))"
proof (induction env wcsd dgfile i s rule: ext_loop.induct)
  case (1 env wcsd dgfile i s)
  show ?case
  proof (cases "i < length (fst s)")
    case False
    then show ?thesis using "1.prems" by (simp add: ext_loop.simps)
  next
    case True
    let ?r = "ext_body env wcsd dgfile i s"
    have t: "touched (slots wcsd) old (fst (fst ?r))"
      using ext_body_touched[OF _ True, of wcsd old env dgfile "snd s"] "1.prems" by simp
    show ?thesis
    proof (cases "snd ?r")
      case (Some err)
      then show ?thesis using t True by (simp add: ext_loop.simps[of env wcsd dgfile i s] Let_def)
    next
      case None
      from "1.IH"[OF True refl None t] None True show ?thesis
        by (simp add: ext_loop.simps[of env wcsd dgfile i s] Let_def)
    qed
  qed
qed



subsection \<open>The index of lookup extensions\<close>

lemma py_eq_refl [simp]: "py_eq a a"
  by (cases a) (simp_all add: py_eq_def)

lemma py_eq_sym: "py_eq a b \<Longrightarrow> py_eq b a"
  by (auto simp: py_eq_def split: option.splits)

lemma py_eq_trans: "py_eq a b \<Longrightarrow> py_eq b c \<Longrightarrow> py_eq a c"
  by (auto simp: py_eq_def split: option.splits)

lemma py_eq_VInt [simp]: "py_eq (VInt a) (VInt b) \<longleftrightarrow> a = b"
  by (simp add: py_eq_def)

lemma py_eq_VStr [simp]: "py_eq v (VStr s) \<longleftrightarrow> v = VStr s"
  by (cases v) (auto simp: py_eq_def)

lemma dict_get_set:
  "dict_get (dict_set d v e) a = (if py_eq v a then Some e else dict_get d a)"
proof (induction d)
  case Nil
  show ?case by simp
next
  case (Cons ke d)
  obtain k e' where ke: "ke = (k, e')" by (cases ke)
  show ?case
  proof (cases "py_eq k v")
    case True
    then have "py_eq k a \<longleftrightarrow> py_eq v a"
      by (meson py_eq_sym py_eq_trans)
    then show ?thesis using True by (simp add: ke)
  next
    case False
    then have "\<not> (py_eq k a \<and> py_eq v a)"
      by (meson py_eq_sym py_eq_trans)
    then show ?thesis using False Cons.IH by (auto simp: ke)
  qed
qed

text \<open>The last position of a list at which a predicate holds.\<close>

fun find_last :: "('a \<Rightarrow> bool) \<Rightarrow> 'a list \<Rightarrow> nat option" where
  "find_last P [] = None"
| "find_last P (x # xs) =
     (case find_last P xs of Some j \<Rightarrow> Some (Suc j) | None \<Rightarrow> if P x then Some 0 else None)"

lemma find_last_None: "find_last P xs = None \<longleftrightarrow> (\<forall>x \<in> set xs. \<not> P x)"
  by (induction xs) (auto split: option.splits)

lemma find_last_Some:
  "find_last P xs = Some j \<longleftrightarrow>
     j < length xs \<and> P (xs ! j) \<and> (\<forall>j'. j < j' \<and> j' < length xs \<longrightarrow> \<not> P (xs ! j'))"
proof (induction xs arbitrary: j)
  case Nil
  show ?case by simp
next
  case (Cons x xs)
  show ?case
  proof (cases "find_last P xs")
    case None
    then have no: "\<forall>y \<in> set xs. \<not> P y" by (simp add: find_last_None)
    have "(find_last P (x # xs) = Some j) \<longleftrightarrow> (P x \<and> j = 0)"
      using None by auto
    also have "\<dots> \<longleftrightarrow> j < length (x # xs) \<and> P ((x # xs) ! j)
        \<and> (\<forall>j'. j < j' \<and> j' < length (x # xs) \<longrightarrow> \<not> P ((x # xs) ! j'))"
    proof (cases j)
      case 0
      then show ?thesis using no by (auto simp: nth_Cons split: nat.splits)
    next
      case (Suc m)
      then show ?thesis using no by (auto simp: nth_Cons split: nat.splits)
    qed
    finally show ?thesis .
  next
    case (Some m)
    then have m: "m < length xs" "P (xs ! m)" "\<forall>j'. m < j' \<and> j' < length xs \<longrightarrow> \<not> P (xs ! j')"
      using Cons.IH[of m] by auto
    have "(find_last P (x # xs) = Some j) \<longleftrightarrow> j = Suc m"
      using Some by auto
    also have "\<dots> \<longleftrightarrow> j < length (x # xs) \<and> P ((x # xs) ! j)
        \<and> (\<forall>j'. j < j' \<and> j' < length (x # xs) \<longrightarrow> \<not> P ((x # xs) ! j'))"
    proof
      assume "j = Suc m"
      then show "j < length (x # xs) \<and> P ((x # xs) ! j)
        \<and> (\<forall>j'. j < j' \<and> j' < length (x # xs) \<longrightarrow> \<not> P ((x # xs) ! j'))"
        using m by (auto simp: nth_Cons split: nat.splits)
    next
      assume a: "j < length (x # xs) \<and> P ((x # xs) ! j)
        \<and> (\<forall>j'. j < j' \<and> j' < length (x # xs) \<longrightarrow> \<not> P ((x # xs) ! j'))"
      show "j = Suc m"
      proof (rule ccontr)
        assume ne: "j \<noteq> Suc m"
        show False
        proof (cases "j < Suc m")
          case True
          then show False using a m by auto
        next
          case False
          with ne have gt: "Suc m < j" by simp
          then obtain j0 where j0: "j = Suc j0" by (cases j) auto
          with gt a have "m < j0" "j0 < length xs" "P (xs ! j0)" by auto
          then show False using m(3) by blast
        qed
      qed
    qed
    finally show ?thesis .
  qed
qed

definition lookup_for :: "val \<Rightarrow> 'd hdu \<Rightarrow> bool" where
  "lookup_for a h \<longleftrightarrow>
     lookup_named h \<and> (case hdr_get (header h) ''EXTVER'' of Inl err \<Rightarrow> False | Inr v \<Rightarrow> py_eq v a)"

lemma getwcsindex_from_get:
  "getwcsindex_from e hs d = Inr d' \<Longrightarrow>
     dict_get d' a = (case find_last (lookup_for a) hs of Some j \<Rightarrow> Some (e + j) | None \<Rightarrow> dict_get d a)"
proof (induction hs arbitrary: e d)
  case Nil
  then show ?case by simp
next
  case (Cons h hs)
  show ?case
  proof (cases "lookup_named h")
    case False
    then have nl: "\<not> lookup_for a h" by (simp add: lookup_for_def)
    from False Cons.prems have "getwcsindex_from (Suc e) hs d = Inr d'"
      by (auto simp: lookup_named_def split: sum.splits if_splits)
    from Cons.IH[OF this] nl show ?thesis
      by (auto split: option.splits)
  next
    case True
    then have n: "hdr_get (header h) ''EXTNAME'' = Inr (VStr ''WCSDVARR'')"
      by (simp add: lookup_named_def)
    with Cons.prems obtain v where v: "hdr_get (header h) ''EXTVER'' = Inr v"
      and r: "getwcsindex_from (Suc e) hs (dict_set d v e) = Inr d'"
      by (auto split: sum.splits)
    have lf: "lookup_for a h \<longleftrightarrow> py_eq v a"
      using True v by (simp add: lookup_for_def)
    from Cons.IH[OF r] lf show ?thesis
      by (auto simp: dict_get_set split: option.splits)
  qed
qed

lemma getwcsindex_get:
  "getwcsindex fobj = Inr wcsd \<Longrightarrow> dict_get wcsd a = find_last (lookup_for a) fobj"
  using getwcsindex_from_get[of 0 fobj "[]" wcsd a]
  by (auto simp: getwcsindex_def split: option.splits)

lemma getwcsindex_slot:
  assumes "getwcsindex fobj = Inr wcsd" "dict_get wcsd a = Some k"
  shows "k < length fobj" "lookup_for a (fobj ! k)" "lookup_named (fobj ! k)"
  using assms getwcsindex_get[OF assms(1), of a]
  by (auto simp: find_last_Some lookup_for_def)

lemma slots_lookup_named:
  "getwcsindex fobj = Inr wcsd \<Longrightarrow> k \<in> slots wcsd \<Longrightarrow> k < length fobj \<and> lookup_named (fobj ! k)"
  by (auto simp: slots_def dest: getwcsindex_slot)

lemma applyDgeoCorr_touched:
  "\<exists>S. touched S fobj (fst (applyDgeoCorr env fobj)) \<and> (\<forall>k \<in> S. k < length fobj \<and> lookup_named (fobj ! k))"
proof (cases "primary_get fobj ''DGEOFILE''")
  case (Inl err)
  then show ?thesis
    by (intro exI[of _ "{}"]) (simp add: applyDgeoCorr_def touched_refl)
next
  case v: (Inr v)
  show ?thesis
  proof (cases "osfn env v")
    case (Inl err)
    then show ?thesis using v
      by (intro exI[of _ "{}"]) (simp add: applyDgeoCorr_def touched_refl)
  next
    case f: (Inr dgfile)
    show ?thesis
    proof (cases "getwcsindex fobj")
      case (Inl err)
      then show ?thesis using v f
        by (intro exI[of _ "{}"]) (simp add: applyDgeoCorr_def touched_refl)
    next
      case (Inr wcsd)
      have "touched (slots wcsd) fobj (fst (fst (ext_loop env wcsd dgfile 0 (fobj, 0))))"
        by (rule ext_loop_touched) (simp add: touched_refl)
      then show ?thesis using v f Inr slots_lookup_named[OF Inr]
        by (intro exI[of _ "slots wcsd"]) (simp add: applyDgeoCorr_def Let_def)
    qed
  qed
qed

lemma ext_body_no_extname:
  "\<not> has_key (header (fst s ! i)) ''EXTNAME'' \<Longrightarrow> ext_body env wcsd dgfile i s = (s, None)"
  using hdr_get_KeyError[of "header (fst s ! i)" "''EXTNAME''" KeyError]
  by (simp add: ext_body_def)

text \<open>
  C8: an extension that is not a science extension (its EXTNAME, lower-cased, is not
  \<^verbatim>\<open>'sci'\<close>, or it has no EXTNAME at all) is still in the file object after the call,
  whatever the outcome, and is unchanged, header and data; the only exception is an
  extension named WCSDVARR, whose position may then hold a lookup extension. An
  extension without EXTNAME is skipped by the traversal without an error.
\<close>

theorem non_science_untouched:
  assumes "p < length fobj" "\<not> is_sci (fobj ! p)"
  shows "p < length (fst (applyDgeoCorr env fobj))
     \<and> (fst (applyDgeoCorr env fobj) ! p = fobj ! p
          \<or> (lookup_named (fobj ! p) \<and> lookup_named (fst (applyDgeoCorr env fobj) ! p)))
     \<and> (\<not> has_key (header (fobj ! p)) ''EXTNAME'' \<longrightarrow>
            fst (applyDgeoCorr env fobj) ! p = fobj ! p
            \<and> ext_body env wcsd dgfile p (fobj, dgeover) = ((fobj, dgeover), None))"
proof -
  obtain S where t: "touched S fobj (fst (applyDgeoCorr env fobj))"
    and S: "\<forall>k \<in> S. k < length fobj \<and> lookup_named (fobj ! k)"
    using applyDgeoCorr_touched by blast
  let ?R = "fst (applyDgeoCorr env fobj)"
  have len: "p < length ?R" using t assms(1) by (simp add: touched_def)
  have "?R ! p = fobj ! p \<or> (p \<in> S \<and> lookup_named (?R ! p))"
    using t assms by (auto simp: touched_def)
  then have main: "?R ! p = fobj ! p \<or> (lookup_named (fobj ! p) \<and> lookup_named (?R ! p))"
    using S by auto
  have nokey: "?R ! p = fobj ! p" if "\<not> has_key (header (fobj ! p)) ''EXTNAME''"
  proof -
    from that have "\<not> lookup_named (fobj ! p)"
      by (auto simp: lookup_named_def dest: hdr_get_Inr_has_key)
    with main show ?thesis by simp
  qed
  show ?thesis
    using len main nokey ext_body_no_extname[of "(fobj, dgeover)" p env wcsd dgfile] by simp
qed

theorem non_science_untouched_witness:
  "fst (applyDgeoCorr ref_env
          [primary_hdu ''ACS'', image_hdu ''SCI'' 1, \<lparr>header = [(''BITPIX'', VInt 16, [])], hdata = Some (''raw'', VNone)\<rparr>]) ! 2
     = \<lparr>header = [(''BITPIX'', VInt 16, [])], hdata = Some (''raw'', VNone)\<rparr>
   \<and> ext_body ref_env [] (VStr ''/ref/d.fits'') 2
        ([primary_hdu ''ACS'', image_hdu ''SCI'' 1, \<lparr>header = [(''BITPIX'', VInt 16, [])], hdata = Some (''raw'', VNone)\<rparr>], 0)
      = (([primary_hdu ''ACS'', image_hdu ''SCI'' 1, \<lparr>header = [(''BITPIX'', VInt 16, [])], hdata = Some (''raw'', VNone)\<rparr>], 0), None)"
  using non_science_untouched[of 2
      "[primary_hdu ''ACS'', image_hdu ''SCI'' 1, \<lparr>header = [(''BITPIX'', VInt 16, [])], hdata = Some (''raw'', VNone)\<rparr>]"
      ref_env "[]" "VStr ''/ref/d.fits''" 0]
  by (simp add: is_sci_def has_key_def)



subsection \<open>An instrument missing from the table\<close>

lemma set_ext_header_twice [simp]:
  "set_ext_header i att h2 (set_ext_header i att h1 fobj) = set_ext_header i att h2 fobj"
  by (cases "i < length fobj") (simp_all add: set_ext_header_def list_update_beyond)

lemma primary_get_set_ext:
  assumes "i < length fobj" "hdr_get h' k = hdr_get (header (fobj ! i)) k"
  shows "primary_get (set_ext_header i att h' fobj) k = primary_get fobj k"
proof (cases fobj)
  case Nil
  then show ?thesis using assms by simp
next
  case (Cons p rest)
  then show ?thesis using assms
    by (cases i) (auto simp: primary_get_def set_ext_header_def)
qed

lemma addSciExtKw_shape:
  "\<exists>h'. fst (fst (addSciExtKw i att v ename (fobj, hdr))) = set_ext_header i att h' fobj
        \<and> snd (fst (addSciExtKw i att v ename (fobj, hdr))) = h'
        \<and> hdr_get h' ''INSTRUME'' = hdr_get hdr ''INSTRUME''
        \<and> hdr_get h' ''EXTNAME'' = hdr_get hdr ''EXTNAME''
        \<and> hdr_get h' ''EXTVER'' = hdr_get hdr ''EXTVER''"
  by (auto simp: addSciExtKw_def Let_def hdr_get_update_card hdr_get_sci_cards_kept kept_key_def
      split: sum.splits)

lemma createDgeoHDU_unknown:
  "primary_get fobj ''INSTRUME'' = Inr instr \<Longrightarrow> dgeo_vals env instr = None \<Longrightarrow>
     createDgeoHDU env fobj dgfile v ename x = Inl KeyError"
  by (simp add: createDgeoHDU_def createDgeoHdr_def then_do_def item_def)

lemma set_ext_header_as_update:
  "i < length fobj \<Longrightarrow> set_ext_header i True h' fobj = fobj[i := (fobj ! i)\<lparr>header := h'\<rparr>]"
  by (simp add: set_ext_header_def)

lemma axis_step_unknown:
  assumes "primary_get fobj ''INSTRUME'' = Inr instr" "dgeo_vals env instr = None"
    "i < length fobj"
  shows "\<exists>h'. fst (fst (axis_step env wcsd dgfile x i ename (fobj, dg, header (fobj ! i), True)))
                 = fobj[i := (fobj ! i)\<lparr>header := h'\<rparr>]
             \<and> snd (axis_step env wcsd dgfile x i ename (fobj, dg, header (fobj ! i), True)) \<noteq> None"
proof -
  let ?r = "addSciExtKw i True (dg + 1) ename (fobj, header (fobj ! i))"
  obtain h' where h': "fst (fst ?r) = set_ext_header i True h' fobj"
    "hdr_get h' ''INSTRUME'' = hdr_get (header (fobj ! i)) ''INSTRUME''"
    using addSciExtKw_shape[of i True "dg + 1" ename fobj "header (fobj ! i)"] by auto
  have "primary_get (fst (fst ?r)) ''INSTRUME'' = Inr instr"
    unfolding h'(1) using primary_get_set_ext[OF assms(3) h'(2)] assms(1) by simp
  then have c: "createDgeoHDU env (fst (fst ?r)) dgfile (dg + 1) ename x = Inl KeyError"
    using assms(2) by (rule createDgeoHDU_unknown)
  have "fst (fst (axis_step env wcsd dgfile x i ename (fobj, dg, header (fobj ! i), True)))
          = fst (fst ?r)
        \<and> snd (axis_step env wcsd dgfile x i ename (fobj, dg, header (fobj ! i), True)) \<noteq> None"
    using c by (auto simp: axis_step_def Let_def split: option.splits)
  then show ?thesis
    using h'(1) assms(3) by (auto simp: set_ext_header_as_update)
qed

lemma sci_body_unknown:
  assumes "primary_get fobj ''INSTRUME'' = Inr instr" "dgeo_vals env instr = None"
    "i < length fobj"
  shows "\<exists>h'. fst (fst (sci_body env wcsd dgfile i (fobj, dg))) = fobj[i := (fobj ! i)\<lparr>header := h'\<rparr>]
             \<and> snd (sci_body env wcsd dgfile i (fobj, dg)) \<noteq> None"
proof (cases "hdr_get (header (fobj ! i)) ''EXTVER''")
  case (Inl err)
  then have "fst (fst (sci_body env wcsd dgfile i (fobj, dg))) = fobj[i := (fobj ! i)\<lparr>header := header (fobj ! i)\<rparr>]
      \<and> snd (sci_body env wcsd dgfile i (fobj, dg)) \<noteq> None"
    by (simp add: sci_body_def)
  then show ?thesis by blast
next
  case (Inr x)
  obtain h' where h':
    "fst (fst (axis_step env wcsd dgfile x i ''DX'' (fobj, dg, header (fobj ! i), True)))
       = fobj[i := (fobj ! i)\<lparr>header := h'\<rparr>]"
    "snd (axis_step env wcsd dgfile x i ''DX'' (fobj, dg, header (fobj ! i), True)) \<noteq> None"
    using axis_step_unknown[OF assms, of wcsd dgfile x "''DX''" dg] by blast
  then have "fst (fst (sci_body env wcsd dgfile i (fobj, dg))) = fobj[i := (fobj ! i)\<lparr>header := h'\<rparr>]
      \<and> snd (sci_body env wcsd dgfile i (fobj, dg)) \<noteq> None"
    using Inr by (auto simp: sci_body_def Let_def split: option.splits)
  then show ?thesis by blast
qed

definition first_sci_change :: "nat \<Rightarrow> 'd hdu list \<Rightarrow> 'd hdu list \<Rightarrow> bool" where
  "first_sci_change i old new \<longleftrightarrow>
     (\<exists>q h'. i \<le> q \<and> q < length old \<and> is_sci (old ! q)
            \<and> (\<forall>p. i \<le> p \<and> p < q \<longrightarrow> \<not> is_sci (old ! p))
            \<and> new = old[q := (old ! q)\<lparr>header := h'\<rparr>])"

lemma ext_loop_unknown:
  assumes "primary_get (fst s) ''INSTRUME'' = Inr instr" "dgeo_vals env instr = None"
  shows "(fst (fst (ext_loop env wcsd dgfile i s)) = fst s
           \<and> (snd (ext_loop env wcsd dgfile i s) = None \<longrightarrow>
                (\<forall>p. i \<le> p \<and> p < length (fst s) \<longrightarrow> \<not> is_sci (fst s ! p))))
         \<or> (first_sci_change i (fst s) (fst (fst (ext_loop env wcsd dgfile i s)))
             \<and> snd (ext_loop env wcsd dgfile i s) \<noteq> None)"
  using assms
proof (induction env wcsd dgfile i s rule: ext_loop.induct)
  case (1 env wcsd dgfile i s)
  show ?case
  proof (cases "i < length (fst s)")
    case False
    then show ?thesis by (auto simp: ext_loop.simps[of env wcsd dgfile i s])
  next
    case True
    let ?r = "ext_body env wcsd dgfile i s"
    show ?thesis
    proof (cases "is_sci (fst s ! i)")
      case sci: True
      obtain h' where h':
        "fst (fst (sci_body env wcsd dgfile i (fst s, snd s))) = (fst s)[i := (fst s ! i)\<lparr>header := h'\<rparr>]"
        "snd (sci_body env wcsd dgfile i (fst s, snd s)) \<noteq> None"
        using sci_body_unknown[OF "1.prems" True] by blast
      have eq: "?r = sci_body env wcsd dgfile i (fst s, snd s)"
        using sci by (simp add: ext_body_cases)
      have "ext_loop env wcsd dgfile i s = ?r"
        using True h'(2) eq by (auto simp: ext_loop.simps[of env wcsd dgfile i s] Let_def)
      moreover have "first_sci_change i (fst s) (fst (fst ?r))"
        unfolding first_sci_change_def eq h'(1) using True sci
        by (intro exI[of _ i] exI[of _ h']) auto
      ultimately show ?thesis using h'(2) eq by simp
    next
      case nsci: False
      then have st: "fst ?r = s" by (simp add: ext_body_cases)
      show ?thesis
      proof (cases "snd ?r")
        case (Some err)
        then have "ext_loop env wcsd dgfile i s = ?r"
          using True by (simp add: ext_loop.simps[of env wcsd dgfile i s] Let_def)
        then show ?thesis using st Some by simp
      next
        case None
        then have eq: "ext_loop env wcsd dgfile i s = ext_loop env wcsd dgfile (Suc i) s"
          using True st by (simp add: ext_loop.simps[of env wcsd dgfile i s] Let_def)
        have IH: "(fst (fst (ext_loop env wcsd dgfile (Suc i) s)) = fst s
           \<and> (snd (ext_loop env wcsd dgfile (Suc i) s) = None \<longrightarrow>
                (\<forall>p. Suc i \<le> p \<and> p < length (fst s) \<longrightarrow> \<not> is_sci (fst s ! p))))
         \<or> (first_sci_change (Suc i) (fst s) (fst (fst (ext_loop env wcsd dgfile (Suc i) s)))
             \<and> snd (ext_loop env wcsd dgfile (Suc i) s) \<noteq> None)"
          using "1.IH"[OF True refl None] "1.prems" st by simp
        have lift: "first_sci_change i (fst s) new" if "first_sci_change (Suc i) (fst s) new" for new
        proof -
          from that obtain q h' where q: "Suc i \<le> q" "q < length (fst s)" "is_sci (fst s ! q)"
            "\<forall>p. Suc i \<le> p \<and> p < q \<longrightarrow> \<not> is_sci (fst s ! p)"
            "new = (fst s)[q := (fst s ! q)\<lparr>header := h'\<rparr>]"
            by (auto simp: first_sci_change_def)
          have "\<forall>p. i \<le> p \<and> p < q \<longrightarrow> \<not> is_sci (fst s ! p)"
            using q(4) nsci by (metis Suc_leI le_neq_implies_less)
          then show ?thesis using q unfolding first_sci_change_def
            by (intro exI[of _ q] exI[of _ h']) auto
        qed
        have nosci: "\<forall>p. i \<le> p \<and> p < length (fst s) \<longrightarrow> \<not> is_sci (fst s ! p)"
          if "\<forall>p. Suc i \<le> p \<and> p < length (fst s) \<longrightarrow> \<not> is_sci (fst s ! p)"
          using that nsci by (metis Suc_leI le_neq_implies_less)
        show ?thesis unfolding eq using IH lift nosci by blast
      qed
    qed
  qed
qed



section \<open>What a successful traversal computes\<close>

text \<open>
  The header updates of \<^verbatim>\<open>addSciExtKw\<close> as a function of the header, given the value of
  the primary keyword DGEOFILE, and the complete annotation of a science header whose
  lookup versions are \<open>dg + 1\<close> and \<open>dg + 2\<close>.
\<close>

definition addkw :: "val \<Rightarrow> int \<Rightarrow> string \<Rightarrow> header \<Rightarrow> header" where
  "addkw dgraw v ename hdr =
     update_card (foldl update_card hdr (sci_cards v ename)) (''DGEOFILE'', dgraw, dgeofile_comment)"

definition annot :: "val \<Rightarrow> int \<Rightarrow> header \<Rightarrow> header" where
  "annot dgraw dg hdr =
     update_card (addkw dgraw (dg + 2) ''DY'' (addkw dgraw (dg + 1) ''DX'' hdr))
       (''DGEOFILE'', dgraw, dgeofile_comment)"

text \<open>Writing at a position, appending when the position is the length.\<close>

definition put :: "nat \<Rightarrow> 'a \<Rightarrow> 'a list \<Rightarrow> 'a list" where
  "put k h xs = (if k < length xs then xs[k := h] else xs @ [h])"

text \<open>Replacing the header of the extension at a position.\<close>

definition upd_hdr :: "nat \<Rightarrow> header \<Rightarrow> 'd hdu list \<Rightarrow> 'd hdu list" where
  "upd_hdr i h' xs = xs[i := (xs ! i)\<lparr>header := h'\<rparr>]"

lemma length_upd_hdr [simp]: "length (upd_hdr i h' xs) = length xs"
  by (simp add: upd_hdr_def)

lemma upd_hdr_Nil [simp]: "upd_hdr i h' xs = [] \<longleftrightarrow> xs = []"
  by (simp add: upd_hdr_def)

lemma put_not_Nil [simp]: "put k h xs \<noteq> []"
  by (auto simp: put_def)

lemma primary_get_nth0: "xs \<noteq> [] \<Longrightarrow> primary_get xs key = hdr_get (header (xs ! 0)) key"
  by (cases xs) (simp_all add: primary_get_def)

lemma length_put: "length (put k h xs) = (if k < length xs then length xs else Suc (length xs))"
  by (simp add: put_def)

lemma upd_hdr_twice [simp]: "upd_hdr i h2 (upd_hdr i h1 xs) = upd_hdr i h2 xs"
  by (cases "i < length xs") (simp_all add: upd_hdr_def list_update_beyond)

lemma upd_hdr_put: "i \<noteq> k \<Longrightarrow> i < length xs \<Longrightarrow> upd_hdr i h' (put k h xs) = put k h (upd_hdr i h' xs)"
  by (auto simp: upd_hdr_def put_def list_update_swap nth_append list_update_append)

lemma nth_upd_hdr:
  "p < length xs \<Longrightarrow> upd_hdr i h' xs ! p = (if p = i then (xs ! i)\<lparr>header := h'\<rparr> else xs ! p)"
  by (simp add: upd_hdr_def)

lemma nth_put:
  "p < length (put k h xs) \<Longrightarrow> k \<le> length xs \<Longrightarrow> put k h xs ! p = (if p = k then h else xs ! p)"
  by (auto simp: put_def nth_append length_put split: if_splits)

lemma primary_get_upd_hdr:
  "i < length xs \<Longrightarrow>
     primary_get (upd_hdr i h' xs) key = (if i = 0 then hdr_get h' key else primary_get xs key)"
  by (cases xs; cases i) (simp_all add: primary_get_def upd_hdr_def)

lemma primary_get_put:
  "xs \<noteq> [] \<Longrightarrow>
     primary_get (put k h xs) key = (if k = 0 then hdr_get (header h) key else primary_get xs key)"
  by (cases xs; cases k) (simp_all add: primary_get_def put_def)

lemma hdr_get_addkw_kept:
  "kept_key k \<Longrightarrow> k \<noteq> ''DGEOFILE'' \<Longrightarrow> hdr_get (addkw dgraw v ename hdr) k = hdr_get hdr k"
  by (simp add: addkw_def hdr_get_update_card hdr_get_sci_cards_kept)

lemma hdr_get_addkw_dgeofile: "hdr_get (addkw dgraw v ename hdr) ''DGEOFILE'' = Inr dgraw"
  by (simp add: addkw_def hdr_get_update_card)

lemma primary_get_update:
  "k \<noteq> 0 \<Longrightarrow> primary_get (xs[k := h]) key = primary_get xs key"
  by (cases xs; cases k) (simp_all add: primary_get_def)

lemma primary_get_update0:
  "xs \<noteq> [] \<Longrightarrow> primary_get (xs[0 := h]) key = hdr_get (header h) key"
  by (cases xs) (simp_all add: primary_get_def)

lemma primary_get_append:
  "xs \<noteq> [] \<Longrightarrow> primary_get (xs @ ys) key = primary_get xs key"
  by (cases xs) (simp_all add: primary_get_def)

lemma primary_get_hdr_update:
  assumes "i < length xs" "hdr_get h' key = hdr_get (header (xs ! i)) key"
  shows "primary_get (xs[i := (xs ! i)\<lparr>header := h'\<rparr>]) key = primary_get xs key"
  using primary_get_set_ext[OF assms, of True] assms(1) by (simp add: set_ext_header_def)

lemma createDgeoHDU_cong:
  "primary_get f1 ''INSTRUME'' = primary_get f2 ''INSTRUME'' \<Longrightarrow>
     createDgeoHDU env f1 dgfile v ename x = createDgeoHDU env f2 dgfile v ename x"
  by (simp add: createDgeoHDU_def createDgeoHdr_def)

lemma createDgeoHdr_facts:
  assumes "createDgeoHdr env f (dgeokw v) = Inr hdr"
  shows "hdr_get hdr ''DGEOFILE'' = Inl KeyError" "hdr_get hdr ''INSTRUME'' = Inl KeyError"
    "v \<noteq> 0 \<Longrightarrow> hdr_get hdr ''EXTVER'' = Inr (VInt v)"
proof -
  from assms obtain extver instr_vals where
    e: "kw_or (dgeokw v) instr_vals ''extver'' = Inr extver"
    and h: "hdr_get hdr ''DGEOFILE'' = Inl KeyError \<and> hdr_get hdr ''INSTRUME'' = Inl KeyError
            \<and> hdr_get hdr ''EXTVER'' = Inr extver"
    unfolding createDgeoHdr_def then_do_Inr by auto
  from h show "hdr_get hdr ''DGEOFILE'' = Inl KeyError" "hdr_get hdr ''INSTRUME'' = Inl KeyError"
    by simp_all
  assume "v \<noteq> 0"
  with e have "extver = VInt v"
    by (simp add: kw_or_def then_do_def item_def dgeokw_def)
  with h show "hdr_get hdr ''EXTVER'' = Inr (VInt v)" by simp
qed

lemma createDgeoHDU_facts:
  assumes "createDgeoHDU env f dgfile v ename x = Inr h"
  shows "hdr_get (header h) ''DGEOFILE'' = Inl KeyError"
    "hdr_get (header h) ''INSTRUME'' = Inl KeyError"
    "v \<noteq> 0 \<Longrightarrow> hdr_get (header h) ''EXTVER'' = Inr (VInt v)"
    "lookup_named h" "\<not> is_sci h"
proof -
  from assms obtain hdr where hdr: "createDgeoHdr env f (dgeokw v) = Inr hdr" "header h = hdr"
    unfolding createDgeoHDU_def then_do_Inr by auto
  show "hdr_get (header h) ''DGEOFILE'' = Inl KeyError"
    "hdr_get (header h) ''INSTRUME'' = Inl KeyError"
    "v \<noteq> 0 \<Longrightarrow> hdr_get (header h) ''EXTVER'' = Inr (VInt v)"
    using createDgeoHdr_facts[OF hdr(1)] hdr(2) by simp_all
  show "lookup_named h" using assms by (rule createDgeoHDU_lookup_named)
  then show "\<not> is_sci h" by (rule lookup_named_not_sci)
qed

lemma addSciExtKw_True:
  assumes "i < length cur"
  shows "addSciExtKw i True v ename (cur, header (cur ! i)) =
     (case primary_get cur ''DGEOFILE'' of
        Inl err \<Rightarrow>
          ((cur[i := (cur ! i)\<lparr>header := foldl update_card (header (cur ! i)) (sci_cards v ename)\<rparr>],
            foldl update_card (header (cur ! i)) (sci_cards v ename)), Some err)
      | Inr dgraw \<Rightarrow>
          ((cur[i := (cur ! i)\<lparr>header := addkw dgraw v ename (header (cur ! i))\<rparr>],
            addkw dgraw v ename (header (cur ! i))), None))"
proof -
  let ?h1 = "foldl update_card (header (cur ! i)) (sci_cards v ename)"
  have p: "primary_get (set_ext_header i True ?h1 cur) ''DGEOFILE'' = primary_get cur ''DGEOFILE''"
    by (rule primary_get_set_ext[OF assms]) (simp add: hdr_get_sci_cards_kept kept_key_def)
  show ?thesis
    unfolding addSciExtKw_def Let_def fst_conv snd_conv p
    using assms by (simp add: set_ext_header_def addkw_def split: sum.splits)
qed

lemma updateDGEOkw_True:
  assumes "i < length cur"
  shows "updateDGEOkw i True (cur, header (cur ! i)) =
     (case primary_get cur ''DGEOFILE'' of
        Inl err \<Rightarrow> ((cur, header (cur ! i)), Some err)
      | Inr dgraw \<Rightarrow>
          ((cur[i := (cur ! i)\<lparr>header := update_card (header (cur ! i)) (''DGEOFILE'', dgraw, dgeofile_comment)\<rparr>],
            update_card (header (cur ! i)) (''DGEOFILE'', dgraw, dgeofile_comment)), None))"
  using assms by (simp add: updateDGEOkw_def Let_def set_ext_header_def split: sum.splits)

lemma axis_step_ok:
  assumes "i < length cur"
    and "axis_step env wcsd dgfile x i ename (cur, dg, header (cur ! i), True) = (s', None)"
  obtains dgraw h k where
    "primary_get cur ''DGEOFILE'' = Inr dgraw"
    "createDgeoHDU env cur dgfile (dg + 1) ename x = Inr h"
    "s' = (put k h (upd_hdr i (addkw dgraw (dg + 1) ename (header (cur ! i))) cur),
           dg + 1, addkw dgraw (dg + 1) ename (header (cur ! i)), k \<noteq> i)"
    "if wcsd = [] then k = length cur else dict_get wcsd (VInt (dg + 1)) = Some k \<and> k < length cur"
proof -
  let ?a = "addSciExtKw i True (dg + 1) ename (cur, header (cur ! i))"
  from assms(2) have sa: "snd ?a = None"
    by (auto simp: axis_step_def Let_def split: option.splits)
  then obtain dgraw where dgraw: "primary_get cur ''DGEOFILE'' = Inr dgraw"
    unfolding addSciExtKw_True[OF assms(1)] by (auto split: sum.splits)
  let ?h1 = "addkw dgraw (dg + 1) ename (header (cur ! i))"
  let ?c1 = "cur[i := (cur ! i)\<lparr>header := ?h1\<rparr>]"
  have a: "?a = ((?c1, ?h1), None)"
    unfolding addSciExtKw_True[OF assms(1)] dgraw by simp
  have pi: "primary_get ?c1 ''INSTRUME'' = primary_get cur ''INSTRUME''"
    by (rule primary_get_hdr_update[OF assms(1)]) (simp add: hdr_get_addkw_kept kept_key_def)
  from assms(2) a obtain h where h: "createDgeoHDU env ?c1 dgfile (dg + 1) ename x = Inr h"
    by (auto simp: axis_step_def Let_def split: sum.splits)
  then have h': "createDgeoHDU env cur dgfile (dg + 1) ename x = Inr h"
    using createDgeoHDU_cong[OF pi] by simp
  show ?thesis
  proof (cases "wcsd = []")
    case True
    with assms(2) a h have "s' = (?c1 @ [h], dg + 1, ?h1, True)"
      by (simp add: axis_step_def Let_def)
    then have "s' = (put (length cur) h ?c1, dg + 1, ?h1, length cur \<noteq> i)"
      using assms(1) by (simp add: put_def)
    then show ?thesis using that[OF dgraw h', of "length cur"] True by (simp add: upd_hdr_def)
  next
    case False
    with assms(2) a h obtain k where k: "dict_get wcsd (VInt (dg + 1)) = Some k" "k < length cur"
      "s' = (?c1[k := h], dg + 1, ?h1, k \<noteq> i)"
      by (auto simp: axis_step_def Let_def split: option.splits if_splits)
    then have "s' = (put k h ?c1, dg + 1, ?h1, k \<noteq> i)"
      by (simp add: put_def)
    then show ?thesis using that[OF dgraw h', of k] False k by (simp add: upd_hdr_def)
  qed
qed


lemma hdr_get_created_dgeofile:
  "createDgeoHDU env f dgfile v ename x = Inr h \<Longrightarrow> hdr_get (header h) ''DGEOFILE'' \<noteq> Inr dgraw"
  by (simp add: createDgeoHDU_facts(1))

lemma axes_loop_two_ok:
  assumes "axes_loop env wcsd dgfile x i [a, b] s = (s', None)"
  obtains s1 where "axis_step env wcsd dgfile x i a s = (s1, None)"
    "axis_step env wcsd dgfile x i b s1 = (s', None)"
proof -
  let ?r1 = "axis_step env wcsd dgfile x i a s"
  from assms have n1: "snd ?r1 = None"
    by (auto simp: Let_def split: option.splits)
  let ?r2 = "axis_step env wcsd dgfile x i b (fst ?r1)"
  from assms n1 have n2: "snd ?r2 = None" and e: "s' = fst ?r2"
    by (auto simp: Let_def split: option.splits)
  have "?r1 = (fst ?r1, None)" using n1 by (simp add: prod_eq_iff)
  moreover have "axis_step env wcsd dgfile x i b (fst ?r1) = (s', None)"
    using n2 e by (simp add: prod_eq_iff)
  ultimately show ?thesis using that by blast
qed

lemma sci_body_ok:
  assumes i: "i < length cur"
    and dgraw: "primary_get cur ''DGEOFILE'' = Inr dgraw"
    and run: "sci_body env wcsd dgfile i (cur, dg) = ((cur', dg'), None)"
    and noslot: "\<forall>a. dict_get wcsd a \<noteq> Some i"
  obtains x h1 h2 k1 k2 where
    "hdr_get (header (cur ! i)) ''EXTVER'' = Inr x"
    "createDgeoHDU env cur dgfile (dg + 1) ''DX'' x = Inr h1"
    "createDgeoHDU env cur dgfile (dg + 2) ''DY'' x = Inr h2"
    "dg' = dg + 2"
    "cur' = put k2 h2 (put k1 h1 (upd_hdr i (annot dgraw dg (header (cur ! i))) cur))"
    "if wcsd = [] then k1 = length cur \<and> k2 = Suc (length cur)
     else dict_get wcsd (VInt (dg + 1)) = Some k1 \<and> dict_get wcsd (VInt (dg + 2)) = Some k2
          \<and> k1 < length cur \<and> k2 < length cur"
    "k1 \<noteq> i" "k2 \<noteq> i" "k1 \<noteq> 0" "k2 \<noteq> 0"
proof -
  let ?h0 = "header (cur ! i)"
  from run obtain x where x: "hdr_get ?h0 ''EXTVER'' = Inr x"
    by (auto simp: sci_body_def split: sum.splits)
  let ?r = "axes_loop env wcsd dgfile x i [''DX'', ''DY''] (cur, dg, ?h0, True)"
  from run x have rn: "snd ?r = None"
    by (auto simp: sci_body_def Let_def split: option.splits)
  then have "?r = (fst ?r, None)" by (simp add: prod_eq_iff)
  then obtain s1 where s1: "axis_step env wcsd dgfile x i ''DX'' (cur, dg, ?h0, True) = (s1, None)"
    and s2: "axis_step env wcsd dgfile x i ''DY'' s1 = (fst ?r, None)"
    by (rule axes_loop_two_ok)
  have ne: "cur \<noteq> []" using i by auto
  \<comment> \<open>first axis\<close>
  from axis_step_ok[OF i s1] obtain dgraw1 h1 k1 where a1:
    "primary_get cur ''DGEOFILE'' = Inr dgraw1"
    "createDgeoHDU env cur dgfile (dg + 1) ''DX'' x = Inr h1"
    "s1 = (put k1 h1 (upd_hdr i (addkw dgraw1 (dg + 1) ''DX'' ?h0) cur),
           dg + 1, addkw dgraw1 (dg + 1) ''DX'' ?h0, k1 \<noteq> i)"
    "if wcsd = [] then k1 = length cur else dict_get wcsd (VInt (dg + 1)) = Some k1 \<and> k1 < length cur"
    by blast
  have d1: "dgraw1 = dgraw" using a1(1) dgraw by simp
  let ?hA = "addkw dgraw (dg + 1) ''DX'' ?h0"
  let ?c1 = "put k1 h1 (upd_hdr i ?hA cur)"
  have k1i: "k1 \<noteq> i" using a1(4) i noslot by (auto split: if_splits)
  have k1le: "k1 \<le> length cur" using a1(4) by (auto split: if_splits)
  have s1': "s1 = (?c1, dg + 1, ?hA, True)" using a1(3) d1 k1i by simp
  have i1: "i < length ?c1" using i by (simp add: length_put)
  have hA: "header (?c1 ! i) = ?hA"
    using i i1 k1i k1le by (simp add: nth_put nth_upd_hdr)
  have c1b: "?c1 ! i = (cur ! i)\<lparr>header := ?hA\<rparr>"
    using i i1 k1i k1le by (simp add: nth_put nth_upd_hdr)
  \<comment> \<open>second axis\<close>
  have s2': "axis_step env wcsd dgfile x i ''DY'' (?c1, dg + 1, header (?c1 ! i), True) = (fst ?r, None)"
    using s2 s1' hA by simp
  from axis_step_ok[OF i1 s2'] obtain dgraw2 h2 k2 where a2:
    "primary_get ?c1 ''DGEOFILE'' = Inr dgraw2"
    "createDgeoHDU env ?c1 dgfile (dg + 1 + 1) ''DY'' x = Inr h2"
    "fst ?r = (put k2 h2 (upd_hdr i (addkw dgraw2 (dg + 1 + 1) ''DY'' (header (?c1 ! i))) ?c1),
           dg + 1 + 1, addkw dgraw2 (dg + 1 + 1) ''DY'' (header (?c1 ! i)), k2 \<noteq> i)"
    "if wcsd = [] then k2 = length ?c1 else dict_get wcsd (VInt (dg + 1 + 1)) = Some k2 \<and> k2 < length ?c1"
    by blast
  have pu: "primary_get (upd_hdr i ?hA cur) ''DGEOFILE'' = Inr dgraw"
    using i dgraw by (simp add: primary_get_upd_hdr hdr_get_addkw_dgeofile)
  have k10: "k1 \<noteq> 0"
  proof
    assume "k1 = 0"
    then have "primary_get ?c1 ''DGEOFILE'' = hdr_get (header h1) ''DGEOFILE''"
      using ne by (simp add: primary_get_put)
    then show False using a2(1) createDgeoHDU_facts(1)[OF a1(2)] by simp
  qed
  have p1: "primary_get ?c1 key = primary_get (upd_hdr i ?hA cur) key" for key
    using k10 ne by (simp add: primary_get_put)
  have d2: "dgraw2 = dgraw" using a2(1) p1 pu by simp
  have pi1: "primary_get ?c1 ''INSTRUME'' = primary_get cur ''INSTRUME''"
    using i primary_get_nth0[OF ne, of "''INSTRUME''"]
    by (simp add: p1 primary_get_upd_hdr hdr_get_addkw_kept kept_key_def)
  let ?hB = "addkw dgraw (dg + 2) ''DY'' ?hA"
  let ?c2 = "put k2 h2 (upd_hdr i ?hB ?c1)"
  have c2h: "createDgeoHDU env cur dgfile (dg + 2) ''DY'' x = Inr h2"
    using a2(2) createDgeoHDU_cong[OF pi1, of env dgfile "dg + 2" "''DY''" x] by (simp add: add.assoc)
  have len1: "length ?c1 = (if wcsd = [] then Suc (length cur) else length cur)"
    using a1(4) by (auto simp: length_put split: if_splits)
  have k2i: "k2 \<noteq> i" using a2(4) i noslot len1 by (auto split: if_splits)
  have k2le: "k2 \<le> length ?c1" using a2(4) by (auto split: if_splits)
  have r': "fst ?r = (?c2, dg + 2, ?hB, True)"
    using a2(3) d2 k2i hA by (simp add: add.assoc)
  have i2: "i < length ?c2" using i1 by (simp add: length_put)
  have hB: "header (?c2 ! i) = ?hB"
    using i1 i2 k2i k2le by (simp add: nth_put nth_upd_hdr)
  \<comment> \<open>the final DGEOFILE keyword\<close>
  let ?u = "updateDGEOkw i True (?c2, header (?c2 ! i))"
  from run x rn r' hB have u: "snd ?u = None" "cur' = fst (fst ?u)" and dg': "dg' = dg + 2"
    by (auto simp: sci_body_def Let_def)
  from u(1) obtain dgraw3 where d3: "primary_get ?c2 ''DGEOFILE'' = Inr dgraw3"
    unfolding updateDGEOkw_True[OF i2] by (auto split: sum.splits)
  have ne1: "upd_hdr i ?hB ?c1 \<noteq> []" using i1 by auto
  have k20: "k2 \<noteq> 0"
  proof
    assume "k2 = 0"
    then have "primary_get ?c2 ''DGEOFILE'' = hdr_get (header h2) ''DGEOFILE''"
      using ne1 by (simp add: primary_get_put)
    then show False using d3 createDgeoHDU_facts(1)[OF c2h] by simp
  qed
  have "primary_get ?c2 ''DGEOFILE'' = primary_get (upd_hdr i ?hB ?c1) ''DGEOFILE''"
    using k20 ne1 by (simp add: primary_get_put)
  also have "\<dots> = Inr dgraw"
    using i1 p1[of "''DGEOFILE''"] pu by (simp add: primary_get_upd_hdr hdr_get_addkw_dgeofile)
  finally have p2: "primary_get ?c2 ''DGEOFILE'' = Inr dgraw" .
  let ?hC = "update_card ?hB (''DGEOFILE'', dgraw, dgeofile_comment)"
  have "?u = ((upd_hdr i (update_card (header (?c2 ! i)) (''DGEOFILE'', dgraw, dgeofile_comment)) ?c2,
                update_card (header (?c2 ! i)) (''DGEOFILE'', dgraw, dgeofile_comment)), None)"
    by (subst updateDGEOkw_True[OF i2], subst p2) (simp add: upd_hdr_def)
  then have "fst (fst ?u) = upd_hdr i ?hC ?c2"
    by (simp only: hB fst_conv)
  then have "cur' = upd_hdr i ?hC ?c2"
    using u(2) by simp
  also have "\<dots> = put k2 h2 (upd_hdr i ?hC ?c1)"
    using k2i i1 by (simp add: upd_hdr_put)
  also have "upd_hdr i ?hC ?c1 = put k1 h1 (upd_hdr i ?hC cur)"
    using k1i i by (simp add: upd_hdr_put)
  finally have cur': "cur' = put k2 h2 (put k1 h1 (upd_hdr i (annot dgraw dg ?h0) cur))"
    by (simp add: annot_def)
  have modes: "if wcsd = [] then k1 = length cur \<and> k2 = Suc (length cur)
     else dict_get wcsd (VInt (dg + 1)) = Some k1 \<and> dict_get wcsd (VInt (dg + 2)) = Some k2
          \<and> k1 < length cur \<and> k2 < length cur"
    using a1(4) a2(4) len1 by (auto simp: add.assoc split: if_splits)
  show ?thesis
    using that[OF x a1(2) c2h dg' cur' modes k1i k2i k10 k20] .
qed



text \<open>
  The position a lookup version is written to: with an empty index the versions
  \<open>1, 2, \<dots>\<close> are appended after the \<open>n0\<close> extensions of the file, otherwise the index
  gives the position.
\<close>

definition slot :: "wcsdict \<Rightarrow> nat \<Rightarrow> int \<Rightarrow> nat option" where
  "slot wcsd n0 v =
     (if wcsd = [] then (if 1 \<le> v then Some (n0 + nat (v - 1)) else None)
      else dict_get wcsd (VInt v))"

definition slot_inj :: "wcsdict \<Rightarrow> nat \<Rightarrow> bool" where
  "slot_inj wcsd n0 \<longleftrightarrow> (\<forall>a b k. slot wcsd n0 a = Some k \<and> slot wcsd n0 b = Some k \<longrightarrow> a = b)"

definition run_inv :: "wcsdict \<Rightarrow> nat \<Rightarrow> val \<Rightarrow> 'd hdu list \<Rightarrow> 'd hdu list \<Rightarrow> int \<Rightarrow> bool" where
  "run_inv wcsd n0 dgraw F0 cur dg \<longleftrightarrow>
     0 \<le> dg \<and> primary_get cur ''DGEOFILE'' = Inr dgraw
     \<and> primary_get cur ''INSTRUME'' = primary_get F0 ''INSTRUME''
     \<and> (if wcsd = []
         then length cur = n0 + nat dg \<and> (\<forall>q. n0 \<le> q \<and> q < length cur \<longrightarrow> \<not> is_sci (cur ! q))
         else length cur = n0 \<and> (\<forall>a k. dict_get wcsd a = Some k \<longrightarrow> k < n0 \<and> \<not> is_sci (cur ! k)))"

lemma slot_not_sci:
  "run_inv wcsd n0 dgraw F0 cur dg \<Longrightarrow> slot wcsd n0 v = Some k \<Longrightarrow> k < length cur \<Longrightarrow> \<not> is_sci (cur ! k)"
  by (auto simp: run_inv_def slot_def split: if_splits)

lemma sci_count_as_map: "sci_count n xs = length (filter id (drop n (map is_sci xs)))"
  by (simp add: sci_count_def drop_map filter_map comp_def)

lemma sci_count_cong: "map is_sci xs = map is_sci ys \<Longrightarrow> sci_count n xs = sci_count n ys"
  by (simp add: sci_count_as_map)

lemma sci_count_update_same:
  "k < length xs \<Longrightarrow> is_sci y = is_sci (xs ! k) \<Longrightarrow> sci_count n (xs[k := y]) = sci_count n xs"
  by (rule sci_count_cong) (simp add: map_update list_update_same_conv)

lemma sci_count_upd_hdr:
  "i < length xs \<Longrightarrow> sci_header h' = is_sci (xs ! i) \<Longrightarrow> sci_count n (upd_hdr i h' xs) = sci_count n xs"
  unfolding upd_hdr_def by (rule sci_count_update_same) (simp_all add: is_sci_header)

lemma sci_count_put:
  "\<not> is_sci h \<Longrightarrow> (k < length xs \<longrightarrow> \<not> is_sci (xs ! k)) \<Longrightarrow> sci_count n (put k h xs) = sci_count n xs"
  by (auto simp: put_def sci_count_append sci_count_update_same)

lemma hdr_get_annot_kept:
  "kept_key k \<Longrightarrow> k \<noteq> ''DGEOFILE'' \<Longrightarrow> hdr_get (annot dgraw dg hdr) k = hdr_get hdr k"
  by (simp add: annot_def hdr_get_update_card hdr_get_addkw_kept)

lemma hdr_get_annot_dgeofile: "hdr_get (annot dgraw dg hdr) ''DGEOFILE'' = Inr dgraw"
  by (simp add: annot_def hdr_get_update_card)

lemma sci_header_annot: "sci_header (annot dgraw dg hdr) = sci_header hdr"
  by (rule sci_header_cong) (simp add: hdr_get_annot_kept kept_key_def)

lemma sci_body_step:
  assumes inv: "run_inv wcsd n0 dgraw F0 cur dg"
    and i: "i < length cur" and sci: "is_sci (cur ! i)"
    and run: "sci_body env wcsd dgfile i (cur, dg) = ((cur', dg'), None)"
    and inj: "slot_inj wcsd n0"
  obtains x h1 h2 k1 k2 where
    "hdr_get (header (cur ! i)) ''EXTVER'' = Inr x"
    "createDgeoHDU env F0 dgfile (dg + 1) ''DX'' x = Inr h1"
    "createDgeoHDU env F0 dgfile (dg + 2) ''DY'' x = Inr h2"
    "dg' = dg + 2"
    "slot wcsd n0 (dg + 1) = Some k1" "slot wcsd n0 (dg + 2) = Some k2"
    "k1 < length cur'" "k2 < length cur'" "cur' ! k1 = h1" "cur' ! k2 = h2"
    "length cur \<le> length cur'"
    "cur' ! i = (cur ! i)\<lparr>header := annot dgraw dg (header (cur ! i))\<rparr>"
    "\<forall>p < length cur. p \<noteq> i \<and> p \<noteq> k1 \<and> p \<noteq> k2 \<longrightarrow> cur' ! p = cur ! p"
    "\<forall>p < length cur. is_sci (cur' ! p) = is_sci (cur ! p)"
    "run_inv wcsd n0 dgraw F0 cur' (dg + 2)"
    "\<forall>p. sci_count p cur' = sci_count p cur"
proof -
  have dgraw: "primary_get cur ''DGEOFILE'' = Inr dgraw"
    and instr: "primary_get cur ''INSTRUME'' = primary_get F0 ''INSTRUME''"
    and dg0: "0 \<le> dg"
    using inv by (simp_all add: run_inv_def)
  have noslot: "\<forall>a. dict_get wcsd a \<noteq> Some i"
    using inv sci by (cases "wcsd = []") (auto simp: run_inv_def)
  show ?thesis
  proof (rule sci_body_ok[OF i dgraw run noslot], goal_cases)
  case ok: (1 x h1 h2 k1 k2)
  let ?X = "annot dgraw dg (header (cur ! i))"
  let ?U = "upd_hdr i ?X cur"
  let ?P1 = "put k1 h1 ?U"
  have c1: "createDgeoHDU env F0 dgfile (dg + 1) ''DX'' x = Inr h1"
    and c2: "createDgeoHDU env F0 dgfile (dg + 2) ''DY'' x = Inr h2"
    using ok(2,3) createDgeoHDU_cong[OF instr] by simp_all
  have ns1: "\<not> is_sci h1" and ns2: "\<not> is_sci h2"
    using createDgeoHDU_facts(5)[OF c1] createDgeoHDU_facts(5)[OF c2] by simp_all
  have s1: "slot wcsd n0 (dg + 1) = Some k1" and s2: "slot wcsd n0 (dg + 2) = Some k2"
    using ok(6) inv dg0 by (auto simp: slot_def run_inv_def nat_add_distrib split: if_splits)
  have k12: "k1 \<noteq> k2"
  proof
    assume "k1 = k2"
    with s1 s2 inj have "dg + 1 = dg + 2" unfolding slot_inj_def by blast
    then show False by simp
  qed
  have k1le: "k1 \<le> length ?U" and k2le: "k2 \<le> length ?P1"
    using ok(6) by (auto simp: length_put split: if_splits)
  have len': "length cur' = (if wcsd = [] then length cur + 2 else length cur)"
    using ok(6) unfolding ok(5) by (auto simp: length_put split: if_splits)
  have nth': "cur' ! p = (if p = k2 then h2 else if p = k1 then h1 else ?U ! p)"
    if "p < length cur'" for p
  proof -
    have a: "cur' ! p = (if p = k2 then h2 else ?P1 ! p)"
      using that k2le unfolding ok(5) by (rule nth_put)
    have "p < length ?P1" if "p \<noteq> k2"
      using that \<open>p < length cur'\<close> k2le unfolding ok(5) by (auto simp: length_put split: if_splits)
    then have "?P1 ! p = (if p = k1 then h1 else ?U ! p)" if "p \<noteq> k2"
      using that k1le nth_put[of p k1 h1 ?U] by simp
    with a show ?thesis by simp
  qed
  have k1l: "k1 < length cur'" and k2l: "k2 < length cur'"
    using ok(6) len' by (auto split: if_splits)
  have n1: "cur' ! k1 = h1" and n2: "cur' ! k2 = h2"
    using nth'[OF k1l] nth'[OF k2l] k12 by simp_all
  have lenle: "length cur \<le> length cur'" using len' by simp
  have il: "i < length cur'" using i lenle by simp
  have ni: "cur' ! i = (cur ! i)\<lparr>header := ?X\<rparr>"
    using nth'[OF il] ok(7,8) i by (simp add: nth_upd_hdr)
  have same: "\<forall>p < length cur. p \<noteq> i \<and> p \<noteq> k1 \<and> p \<noteq> k2 \<longrightarrow> cur' ! p = cur ! p"
    using nth' lenle by (auto simp: nth_upd_hdr)
  have kns: "\<not> is_sci (cur ! k)" if "k = k1 \<or> k = k2" "k < length cur" for k
    using that slot_not_sci[OF inv s1] slot_not_sci[OF inv s2] by auto
  have scis: "\<forall>p < length cur. is_sci (cur' ! p) = is_sci (cur ! p)"
  proof (intro allI impI)
    fix p assume p: "p < length cur"
    then have pl: "p < length cur'" using lenle by simp
    show "is_sci (cur' ! p) = is_sci (cur ! p)"
      using nth'[OF pl] kns[of p] p ns1 ns2 sci
      by (auto simp: nth_upd_hdr is_sci_header sci_header_annot)
  qed
  have cnt: "\<forall>p. sci_count p cur' = sci_count p cur"
  proof
    fix p
    have a: "sci_count p ?U = sci_count p cur"
      using i sci by (intro sci_count_upd_hdr) (simp_all add: sci_header_annot is_sci_header)
    have u1: "k1 < length ?U \<longrightarrow> \<not> is_sci (?U ! k1)"
      using kns[of k1] ok(7) by (auto simp: nth_upd_hdr)
    have b: "sci_count p ?P1 = sci_count p ?U"
      using ns1 u1 by (rule sci_count_put)
    have u2: "k2 < length ?P1 \<longrightarrow> \<not> is_sci (?P1 ! k2)"
    proof
      assume l: "k2 < length ?P1"
      then have "?P1 ! k2 = ?U ! k2" using k1le k12 by (simp add: nth_put)
      moreover have "k2 < length cur" using l ok(6) by (auto simp: length_put split: if_splits)
      ultimately show "\<not> is_sci (?P1 ! k2)" using kns[of k2] ok(8) by (simp add: nth_upd_hdr)
    qed
    have "sci_count p cur' = sci_count p ?P1"
      unfolding ok(5) using ns2 u2 by (rule sci_count_put)
    with a b show "sci_count p cur' = sci_count p cur" by simp
  qed
  have ne: "cur \<noteq> []" using i by auto
  have ne': "cur' \<noteq> []" unfolding ok(5) by simp
  have "0 < length cur'" by (rule le_less_trans[OF le0 il])
  from nth'[OF this] have z: "cur' ! 0 = ?U ! 0"
    using ok(9,10) by simp
  have l0: "0 < length cur" by (rule le_less_trans[OF le0 i])
  have u0: "?U ! 0 = (if i = 0 then (cur ! i)\<lparr>header := ?X\<rparr> else cur ! 0)"
    using nth_upd_hdr[OF l0, of i ?X] by auto
  have pk: "primary_get cur' key = (if i = 0 then hdr_get ?X key else primary_get cur key)" for key
    using primary_get_nth0[OF ne', of key] primary_get_nth0[OF ne, of key] z u0
    by auto
  have pd: "primary_get cur' ''DGEOFILE'' = Inr dgraw"
    using pk[of "''DGEOFILE''"] dgraw by (simp add: hdr_get_annot_dgeofile)
  have pin: "primary_get cur' ''INSTRUME'' = primary_get F0 ''INSTRUME''"
    using pk[of "''INSTRUME''"] instr primary_get_nth0[OF ne, of "''INSTRUME''"]
    by (auto simp: hdr_get_annot_kept kept_key_def)
  have inv': "run_inv wcsd n0 dgraw F0 cur' (dg + 2)"
  proof (cases "wcsd = []")
    case True
    have l: "length cur = n0 + nat dg" and q: "\<forall>q. n0 \<le> q \<and> q < length cur \<longrightarrow> \<not> is_sci (cur ! q)"
      using inv True by (simp_all add: run_inv_def)
    have l': "length cur' = n0 + nat (dg + 2)"
      using len' True l dg0 by (simp add: nat_add_distrib)
    have "\<not> is_sci (cur' ! q)" if "n0 \<le> q" "q < length cur'" for q
    proof (cases "q < length cur")
      case True
      then show ?thesis using scis q that by simp
    next
      case False
      then have "q = k1 \<or> q = k2" using that len' ok(6) \<open>wcsd = []\<close> by auto
      then show ?thesis using n1 n2 ns1 ns2 by auto
    qed
    then show ?thesis using True l' pd pin dg0 by (simp add: run_inv_def)
  next
    case False
    have l: "length cur = n0" and q: "\<forall>a k. dict_get wcsd a = Some k \<longrightarrow> k < n0 \<and> \<not> is_sci (cur ! k)"
      using inv False by (simp_all add: run_inv_def)
    have "\<forall>a k. dict_get wcsd a = Some k \<longrightarrow> k < n0 \<and> \<not> is_sci (cur' ! k)"
      using q scis l by auto
    then show ?thesis using False len' l pd pin dg0 by (simp add: run_inv_def)
  qed
  show ?thesis
    using that[OF ok(1) c1 c2 ok(4) s1 s2 k1l k2l n1 n2 lenle ni same scis inv' cnt] .
  qed
qed



definition lookup_ver :: "'d hdu \<Rightarrow> int \<Rightarrow> bool" where
  "lookup_ver h v \<longleftrightarrow> lookup_named h \<and> hdr_get (header h) ''EXTVER'' = Inr (VInt v)"

text \<open>An extension the traversal steps over without an exception: its EXTNAME, if any, is a string.\<close>

definition ext_ok :: "'d hdu \<Rightarrow> bool" where
  "ext_ok h \<longleftrightarrow> (\<forall>v. hdr_get (header h) ''EXTNAME'' = Inr v \<longrightarrow> (\<exists>s. lower v = Inr s))"

lemma is_sci_ext_ok: "is_sci h \<Longrightarrow> ext_ok h"
  by (auto simp: is_sci_def ext_ok_def split: sum.splits)

lemma lookup_named_ext_ok: "lookup_named h \<Longrightarrow> ext_ok h"
  by (simp add: lookup_named_def ext_ok_def lower_lit)

lemma ext_body_None_ext_ok: "snd (ext_body env wcsd dgfile i s) = None \<Longrightarrow> ext_ok (fst s ! i)"
  by (auto simp: ext_body_def ext_ok_def split: sum.splits)

text \<open>
  What the traversal has done for a science extension once it has ended: the extension
  at its position is the original one with the annotated header, and the two lookup
  extensions built for it are at the positions of its two lookup versions.
\<close>

definition sci_done ::
  "'d env \<Rightarrow> wcsdict \<Rightarrow> nat \<Rightarrow> val \<Rightarrow> 'd hdu list \<Rightarrow> val \<Rightarrow> 'd hdu list \<Rightarrow> nat \<Rightarrow> 'd hdu \<Rightarrow> int \<Rightarrow> bool" where
  "sci_done env wcsd n0 dgraw F0 dgfile R p h0 d \<longleftrightarrow>
     R ! p = h0\<lparr>header := annot dgraw d (header h0)\<rparr>
     \<and> (\<exists>x k1 k2. hdr_get (header h0) ''EXTVER'' = Inr x
           \<and> slot wcsd n0 (d + 1) = Some k1 \<and> k1 < length R
           \<and> createDgeoHDU env F0 dgfile (d + 1) ''DX'' x = Inr (R ! k1)
           \<and> slot wcsd n0 (d + 2) = Some k2 \<and> k2 < length R
           \<and> createDgeoHDU env F0 dgfile (d + 2) ''DY'' x = Inr (R ! k2))"

definition loop_post ::
  "'d env \<Rightarrow> wcsdict \<Rightarrow> nat \<Rightarrow> val \<Rightarrow> 'd hdu list \<Rightarrow> val \<Rightarrow> nat \<Rightarrow> 'd hdu list \<Rightarrow> int
     \<Rightarrow> 'd hdu list \<Rightarrow> int \<Rightarrow> bool" where
  "loop_post env wcsd n0 dgraw F0 dgfile i cur dg R dgR \<longleftrightarrow>
     dgR = dg + 2 * int (sci_count i cur)
     \<and> run_inv wcsd n0 dgraw F0 R dgR
     \<and> (\<forall>p. i \<le> p \<and> p < length cur \<and> is_sci (cur ! p) \<longrightarrow>
            sci_done env wcsd n0 dgraw F0 dgfile R p (cur ! p)
              (dg + 2 * int (sci_count i cur - sci_count p cur)))
     \<and> (\<forall>v. dg < v \<and> v \<le> dgR \<longrightarrow> (\<exists>k. slot wcsd n0 v = Some k \<and> k < length R \<and> lookup_ver (R ! k) v))
     \<and> (\<forall>p < length cur.
            \<not> (i \<le> p \<and> is_sci (cur ! p)) \<and> (\<forall>v. dg < v \<and> v \<le> dgR \<longrightarrow> slot wcsd n0 v \<noteq> Some p)
            \<longrightarrow> R ! p = cur ! p)
     \<and> length cur \<le> length R
     \<and> (\<forall>p. i \<le> p \<and> p < length R \<longrightarrow> ext_ok (R ! p))
     \<and> (\<forall>p. sci_count p R = sci_count p cur)"

lemma sci_count_beyond: "length xs \<le> i \<Longrightarrow> sci_count i xs = 0"
  by (simp add: sci_count_def)

lemma sci_count_nonsci:
  "i < length xs \<Longrightarrow> \<not> is_sci (xs ! i) \<Longrightarrow> sci_count i xs = sci_count (Suc i) xs"
  by (simp add: sci_count_def Cons_nth_drop_Suc[symmetric])

lemma sci_count_mono: "i \<le> p \<Longrightarrow> sci_count p xs \<le> sci_count i xs"
proof (induction "p - i" arbitrary: i)
  case 0
  then show ?case by simp
next
  case (Suc n)
  then have "sci_count p xs \<le> sci_count (Suc i) xs" by simp
  then show ?case using sci_count_Suc_le[of i xs] by simp
qed

lemma loop_post_end:
  assumes "run_inv wcsd n0 dgraw F0 cur dg" "length cur \<le> i"
  shows "loop_post env wcsd n0 dgraw F0 dgfile i cur dg cur dg"
  using assms by (auto simp: loop_post_def sci_count_beyond)

lemma loop_post_nonsci:
  assumes i: "i < length cur" and ns: "\<not> is_sci (cur ! i)" and ok: "ext_ok (cur ! i)"
    and post: "loop_post env wcsd n0 dgraw F0 dgfile (Suc i) cur dg R dgR"
  shows "loop_post env wcsd n0 dgraw F0 dgfile i cur dg R dgR"
proof -
  have c: "sci_count i cur = sci_count (Suc i) cur"
    using i ns by (rule sci_count_nonsci)
  have ge: "Suc i \<le> p" if "i \<le> p" "is_sci (cur ! p)" for p
    using that ns by (cases "p = i") auto
  have a': "dgR = dg + 2 * int (sci_count (Suc i) cur)"
    and b': "run_inv wcsd n0 dgraw F0 R dgR"
    and c': "\<forall>p. Suc i \<le> p \<and> p < length cur \<and> is_sci (cur ! p) \<longrightarrow>
            sci_done env wcsd n0 dgraw F0 dgfile R p (cur ! p)
              (dg + 2 * int (sci_count (Suc i) cur - sci_count p cur))"
    and d': "\<forall>v. dg < v \<and> v \<le> dgR \<longrightarrow> (\<exists>k. slot wcsd n0 v = Some k \<and> k < length R \<and> lookup_ver (R ! k) v)"
    and e': "\<forall>p < length cur.
            \<not> (Suc i \<le> p \<and> is_sci (cur ! p)) \<and> (\<forall>v. dg < v \<and> v \<le> dgR \<longrightarrow> slot wcsd n0 v \<noteq> Some p)
            \<longrightarrow> R ! p = cur ! p"
    and f': "length cur \<le> length R"
    and g': "\<forall>p. Suc i \<le> p \<and> p < length R \<longrightarrow> ext_ok (R ! p)"
    and h': "\<forall>p. sci_count p R = sci_count p cur"
    using post unfolding loop_post_def by blast+
  have cc: "\<forall>p. i \<le> p \<and> p < length cur \<and> is_sci (cur ! p) \<longrightarrow>
            sci_done env wcsd n0 dgraw F0 dgfile R p (cur ! p)
              (dg + 2 * int (sci_count (Suc i) cur - sci_count p cur))"
    using c' ge by blast
  have ee: "\<forall>p < length cur.
            \<not> (i \<le> p \<and> is_sci (cur ! p)) \<and> (\<forall>v. dg < v \<and> v \<le> dgR \<longrightarrow> slot wcsd n0 v \<noteq> Some p)
            \<longrightarrow> R ! p = cur ! p"
    using e' by auto
  have oki: "ext_ok (R ! i)"
  proof (cases "\<forall>v. dg < v \<and> v \<le> dgR \<longrightarrow> slot wcsd n0 v \<noteq> Some i")
    case True
    then have "R ! i = cur ! i" using e' i by auto
    then show ?thesis using ok by simp
  next
    case False
    then obtain v where v: "dg < v" "v \<le> dgR" "slot wcsd n0 v = Some i" by blast
    with d' obtain k where "slot wcsd n0 v = Some k" "lookup_ver (R ! k) v" by blast
    with v(3) have "lookup_named (R ! i)" by (simp add: lookup_ver_def)
    then show ?thesis by (rule lookup_named_ext_ok)
  qed
  have gg: "\<forall>p. i \<le> p \<and> p < length R \<longrightarrow> ext_ok (R ! p)"
  proof (intro allI impI)
    fix p assume p: "i \<le> p \<and> p < length R"
    show "ext_ok (R ! p)"
    proof (cases "p = i")
      case True
      then show ?thesis using oki by simp
    next
      case False
      then have "Suc i \<le> p" using p by simp
      then show ?thesis using g' p by blast
    qed
  qed
  show ?thesis
    unfolding loop_post_def c
    using a' b' cc d' ee f' gg h' by blast
qed

lemma loop_post_sci:
  assumes inv: "run_inv wcsd n0 dgraw F0 cur dg"
    and inj: "slot_inj wcsd n0"
    and i: "i < length cur" and sci: "is_sci (cur ! i)"
    and x: "hdr_get (header (cur ! i)) ''EXTVER'' = Inr x"
    and c1: "createDgeoHDU env F0 dgfile (dg + 1) ''DX'' x = Inr h1"
    and c2: "createDgeoHDU env F0 dgfile (dg + 2) ''DY'' x = Inr h2"
    and s1: "slot wcsd n0 (dg + 1) = Some k1" and s2: "slot wcsd n0 (dg + 2) = Some k2"
    and k1l: "k1 < length cur1" and k2l: "k2 < length cur1"
    and n1: "cur1 ! k1 = h1" and n2: "cur1 ! k2 = h2"
    and lenle: "length cur \<le> length cur1"
    and ni: "cur1 ! i = (cur ! i)\<lparr>header := annot dgraw dg (header (cur ! i))\<rparr>"
    and same: "\<forall>p < length cur. p \<noteq> i \<and> p \<noteq> k1 \<and> p \<noteq> k2 \<longrightarrow> cur1 ! p = cur ! p"
    and scis: "\<forall>p < length cur. is_sci (cur1 ! p) = is_sci (cur ! p)"
    and cnt: "\<forall>p. sci_count p cur1 = sci_count p cur"
    and post: "loop_post env wcsd n0 dgraw F0 dgfile (Suc i) cur1 (dg + 2) R dgR"
  shows "loop_post env wcsd n0 dgraw F0 dgfile i cur dg R dgR"
proof -
  have dg0: "0 \<le> dg" using inv by (simp add: run_inv_def)
  have a': "dgR = dg + 2 + 2 * int (sci_count (Suc i) cur)"
    and b': "run_inv wcsd n0 dgraw F0 R dgR"
    and c': "\<And>p. Suc i \<le> p \<Longrightarrow> p < length cur1 \<Longrightarrow> is_sci (cur1 ! p) \<Longrightarrow>
            sci_done env wcsd n0 dgraw F0 dgfile R p (cur1 ! p)
              (dg + 2 + 2 * int (sci_count (Suc i) cur - sci_count p cur))"
    and d': "\<And>v. dg + 2 < v \<Longrightarrow> v \<le> dgR \<Longrightarrow>
            \<exists>k. slot wcsd n0 v = Some k \<and> k < length R \<and> lookup_ver (R ! k) v"
    and e': "\<And>p. p < length cur1 \<Longrightarrow> \<not> (Suc i \<le> p \<and> is_sci (cur1 ! p)) \<Longrightarrow>
            (\<forall>v. dg + 2 < v \<and> v \<le> dgR \<longrightarrow> slot wcsd n0 v \<noteq> Some p) \<Longrightarrow> R ! p = cur1 ! p"
    and f': "length cur1 \<le> length R"
    and g': "\<And>p. Suc i \<le> p \<Longrightarrow> p < length R \<Longrightarrow> ext_ok (R ! p)"
    and h': "\<And>p. sci_count p R = sci_count p cur"
    using post cnt unfolding loop_post_def by auto
  have ci: "sci_count i cur = Suc (sci_count (Suc i) cur)"
    using i sci by (rule sci_count_Suc)
  have a: "dgR = dg + 2 * int (sci_count i cur)"
    using a' ci by simp
  have ns1: "\<not> is_sci h1" and ns2: "\<not> is_sci h2"
    using createDgeoHDU_facts(5)[OF c1] createDgeoHDU_facts(5)[OF c2] by simp_all
  have later: "slot wcsd n0 v \<noteq> Some k1 \<and> slot wcsd n0 v \<noteq> Some k2" if "dg + 2 < v" for v
  proof -
    have "slot wcsd n0 v = Some k1 \<Longrightarrow> v = dg + 1"
      using inj s1 unfolding slot_inj_def by blast
    moreover have "slot wcsd n0 v = Some k2 \<Longrightarrow> v = dg + 2"
      using inj s2 unfolding slot_inj_def by blast
    ultimately show ?thesis using that by auto
  qed
  have noti: "slot wcsd n0 v \<noteq> Some i" for v
    using slot_not_sci[OF inv _ i, of v] sci by auto
  have Ri: "R ! i = cur1 ! i"
    using i lenle noti by (intro e') auto
  have Rk1: "R ! k1 = h1"
    using e'[OF k1l] later n1 ns1 by auto
  have Rk2: "R ! k2 = h2"
    using e'[OF k2l] later n2 ns2 by auto
  have k1R: "k1 < length R" and k2R: "k2 < length R"
    using k1l k2l f' by simp_all
  have done_i: "sci_done env wcsd n0 dgraw F0 dgfile R i (cur ! i) dg"
    unfolding sci_done_def
    using Ri ni x s1 s2 k1R k2R c1 c2 Rk1 Rk2 by auto
  have done_p: "sci_done env wcsd n0 dgraw F0 dgfile R p (cur ! p)
      (dg + 2 * int (sci_count i cur - sci_count p cur))"
    if p: "i \<le> p" "p < length cur" "is_sci (cur ! p)" for p
  proof (cases "p = i")
    case True
    then show ?thesis using done_i by simp
  next
    case False
    then have ip: "Suc i \<le> p" using p(1) by simp
    have sp: "is_sci (cur1 ! p)" using scis p by simp
    have pl: "p < length cur1" using p(2) lenle by simp
    have "p \<noteq> k1" "p \<noteq> k2" using sp n1 n2 ns1 ns2 by auto
    then have eq: "cur1 ! p = cur ! p" using same p(2) False by simp
    have m: "sci_count p cur \<le> sci_count (Suc i) cur" using ip by (rule sci_count_mono)
    have deq: "dg + 2 + 2 * int (sci_count (Suc i) cur - sci_count p cur)
          = dg + 2 * int (sci_count i cur - sci_count p cur)"
      using ci m by simp
    show ?thesis using c'[OF ip pl sp] unfolding eq deq .
  qed
  have lv1: "lookup_ver (R ! k1) (dg + 1)" and lv2: "lookup_ver (R ! k2) (dg + 2)"
    using createDgeoHDU_facts(3,4)[OF c1] createDgeoHDU_facts(3,4)[OF c2] dg0 Rk1 Rk2
    by (simp_all add: lookup_ver_def)
  have d: "\<exists>k. slot wcsd n0 v = Some k \<and> k < length R \<and> lookup_ver (R ! k) v"
    if v: "dg < v" "v \<le> dgR" for v
  proof -
    consider "v = dg + 1" | "v = dg + 2" | "dg + 2 < v" using v(1) by linarith
    then show ?thesis
    proof cases
      case 1
      then show ?thesis using s1 k1R lv1 by auto
    next
      case 2
      then show ?thesis using s2 k2R lv2 by auto
    next
      case 3
      then show ?thesis using d' v(2) by simp
    qed
  qed
  have dgRge: "dg + 2 \<le> dgR" using a' by simp
  have e: "R ! p = cur ! p"
    if p: "p < length cur" "\<not> (i \<le> p \<and> is_sci (cur ! p))"
      "\<forall>v. dg < v \<and> v \<le> dgR \<longrightarrow> slot wcsd n0 v \<noteq> Some p" for p
  proof -
    have pi: "p \<noteq> i" using p(2) sci by auto
    have "slot wcsd n0 (dg + 1) \<noteq> Some p" "slot wcsd n0 (dg + 2) \<noteq> Some p"
      using p(3) dgRge by simp_all
    then have pk: "p \<noteq> k1" "p \<noteq> k2" using s1 s2 by auto
    have eq: "cur1 ! p = cur ! p" using same p(1) pi pk by simp
    have pl: "p < length cur1" using p(1) lenle by simp
    have "\<not> (Suc i \<le> p \<and> is_sci (cur1 ! p))" using p(1,2) scis by auto
    moreover have "\<forall>v. dg + 2 < v \<and> v \<le> dgR \<longrightarrow> slot wcsd n0 v \<noteq> Some p"
      using p(3) by simp
    ultimately have "R ! p = cur1 ! p" using e'[OF pl] by blast
    then show ?thesis using eq by simp
  qed
  have f: "length cur \<le> length R" using lenle f' by simp
  have "is_sci (R ! i)"
    using Ri ni sci by (simp add: is_sci_header sci_header_annot)
  then have oki: "ext_ok (R ! i)" by (rule is_sci_ext_ok)
  have g: "ext_ok (R ! p)" if "i \<le> p" "p < length R" for p
  proof (cases "p = i")
    case True
    then show ?thesis using oki by simp
  next
    case False
    then have "Suc i \<le> p" using that(1) by simp
    then show ?thesis using g' that(2) by blast
  qed
  show ?thesis
    unfolding loop_post_def
    using a b' done_p d e f g h' by blast
qed

lemma ext_loop_spec:
  assumes "ext_loop env wcsd dgfile i s = ((R, dgR), None)"
    and "run_inv wcsd n0 dgraw F0 (fst s) (snd s)" and "slot_inj wcsd n0"
  shows "loop_post env wcsd n0 dgraw F0 dgfile i (fst s) (snd s) R dgR"
  using assms
proof (induction env wcsd dgfile i s rule: ext_loop.induct)
  case (1 env wcsd dgfile i s)
  show ?case
  proof (cases "i < length (fst s)")
    case False
    then have "ext_loop env wcsd dgfile i s = (s, None)"
      by (simp add: ext_loop.simps[of env wcsd dgfile i s])
    with "1.prems"(1) have "R = fst s" "dgR = snd s" by auto
    then show ?thesis using loop_post_end[OF "1.prems"(2)] False by simp
  next
    case True
    let ?r = "ext_body env wcsd dgfile i s"
    have rn: "snd ?r = None"
    proof (cases "snd ?r")
      case None
      then show ?thesis .
    next
      case (Some err)
      then have "ext_loop env wcsd dgfile i s = ?r"
        using True by (simp add: ext_loop.simps[of env wcsd dgfile i s] Let_def)
      with "1.prems"(1) Some show ?thesis by simp
    qed
    then have nxt: "ext_loop env wcsd dgfile (Suc i) (fst ?r) = ((R, dgR), None)"
      using True "1.prems"(1) by (simp add: ext_loop.simps[of env wcsd dgfile i s] Let_def)
    show ?thesis
    proof (cases "is_sci (fst s ! i)")
      case False
      then have st: "fst ?r = s" by (simp add: ext_body_cases)
      have inv': "run_inv wcsd n0 dgraw F0 (fst (fst ?r)) (snd (fst ?r))"
        unfolding st by (rule "1.prems"(2))
      have "loop_post env wcsd n0 dgraw F0 dgfile (Suc i) (fst (fst ?r)) (snd (fst ?r)) R dgR"
        by (rule "1.IH"[OF True refl rn nxt inv' "1.prems"(3)])
      then have "loop_post env wcsd n0 dgraw F0 dgfile (Suc i) (fst s) (snd s) R dgR"
        unfolding st .
      then show ?thesis
        using ext_body_None_ext_ok[OF rn] by (intro loop_post_nonsci[OF True False]) simp_all
    next
      case sci: True
      obtain cur1 dg1 where r1: "fst ?r = (cur1, dg1)" by (cases "fst ?r") auto
      have "?r = sci_body env wcsd dgfile i (fst s, snd s)"
        using sci by (simp add: ext_body_cases)
      then have run: "sci_body env wcsd dgfile i (fst s, snd s) = ((cur1, dg1), None)"
        using rn r1 by (simp add: prod_eq_iff)
      show ?thesis
      proof (rule sci_body_step[OF "1.prems"(2) True sci run "1.prems"(3)], goal_cases)
        case st: (1 x h1 h2 k1 k2)
        have inv': "run_inv wcsd n0 dgraw F0 (fst (fst ?r)) (snd (fst ?r))"
          unfolding r1 fst_conv snd_conv st(4) by (rule st(15))
        have "loop_post env wcsd n0 dgraw F0 dgfile (Suc i) (fst (fst ?r)) (snd (fst ?r)) R dgR"
          by (rule "1.IH"[OF True refl rn nxt inv' "1.prems"(3)])
        then have post: "loop_post env wcsd n0 dgraw F0 dgfile (Suc i) cur1 (snd s + 2) R dgR"
          unfolding r1 fst_conv snd_conv st(4) .
        show ?case
          by (rule loop_post_sci[OF "1.prems"(2) "1.prems"(3) True sci st(1) st(2) st(3) st(5) st(6)
                st(7) st(8) st(9) st(10) st(11) st(12) st(13) st(14) st(16) post])
      qed
    qed
  qed
qed



section \<open>The result of a successful call\<close>

lemma applyDgeoCorr_ok:
  assumes "applyDgeoCorr env fobj = (R, None)"
  obtains dgraw dgfile wcsd dgR where
    "primary_get fobj ''DGEOFILE'' = Inr dgraw" "osfn env dgraw = Inr dgfile"
    "getwcsindex fobj = Inr wcsd" "ext_loop env wcsd dgfile 0 (fobj, 0) = ((R, dgR), None)"
proof -
  from assms obtain dgraw where a: "primary_get fobj ''DGEOFILE'' = Inr dgraw"
    by (cases "primary_get fobj ''DGEOFILE''") (auto simp: applyDgeoCorr_def)
  from assms a obtain dgfile where b: "osfn env dgraw = Inr dgfile"
    by (cases "osfn env dgraw") (auto simp: applyDgeoCorr_def)
  from assms a b obtain wcsd where c: "getwcsindex fobj = Inr wcsd"
    by (cases "getwcsindex fobj") (auto simp: applyDgeoCorr_def)
  let ?r = "ext_loop env wcsd dgfile 0 (fobj, 0)"
  from assms a b c have "fst (fst ?r) = R" "snd ?r = None"
    by (auto simp: applyDgeoCorr_def Let_def)
  then have "?r = ((R, snd (fst ?r)), None)"
    by (simp add: prod_eq_iff)
  then show ?thesis using that[OF a b c] by blast
qed

lemma run_inv_init:
  assumes "primary_get fobj ''DGEOFILE'' = Inr dgraw" "getwcsindex fobj = Inr wcsd"
  shows "run_inv wcsd (length fobj) dgraw fobj fobj 0"
proof -
  have "k < length fobj \<and> \<not> is_sci (fobj ! k)" if "dict_get wcsd a = Some k" for a k
    using getwcsindex_slot(1,3)[OF assms(2) that] lookup_named_not_sci by blast
  then show ?thesis using assms(1) by (auto simp: run_inv_def)
qed

lemma slot_inj_scan:
  assumes "getwcsindex fobj = Inr wcsd"
  shows "slot_inj wcsd (length fobj)"
proof (cases "wcsd = []")
  case True
  then show ?thesis by (auto simp: slot_inj_def slot_def split: if_splits)
next
  case False
  have "a = b" if "dict_get wcsd (VInt a) = Some k" "dict_get wcsd (VInt b) = Some k" for a b k
  proof -
    from getwcsindex_slot(2)[OF assms that(1)] getwcsindex_slot(2)[OF assms that(2)]
    obtain v where "py_eq v (VInt a)" "py_eq v (VInt b)"
      by (auto simp: lookup_for_def split: sum.splits)
    then have "py_eq (VInt a) (VInt b)" by (meson py_eq_sym py_eq_trans)
    then show ?thesis by simp
  qed
  then show ?thesis using False unfolding slot_inj_def slot_def by auto
qed

lemma applyDgeoCorr_spec:
  assumes "applyDgeoCorr env fobj = (R, None)"
  obtains dgraw dgfile wcsd dgR where
    "primary_get fobj ''DGEOFILE'' = Inr dgraw" "osfn env dgraw = Inr dgfile"
    "getwcsindex fobj = Inr wcsd"
    "loop_post env wcsd (length fobj) dgraw fobj dgfile 0 fobj 0 R dgR"
proof -
  show ?thesis
  proof (rule applyDgeoCorr_ok[OF assms], goal_cases)
    case ok: (1 dgraw dgfile wcsd dgR)
    have "loop_post env wcsd (length fobj) dgraw fobj dgfile 0 (fst (fobj, 0::int)) (snd (fobj, 0::int)) R dgR"
      by (rule ext_loop_spec[OF ok(4)]) (simp_all add: run_inv_init[OF ok(1,3)] slot_inj_scan[OF ok(3)])
    then show ?case using that[OF ok(1,2,3)] by simp
  qed
qed

lemma sci_count_take: "sci_count 0 xs = length (filter is_sci (take p xs)) + sci_count p xs"
proof -
  have "filter is_sci xs = filter is_sci (take p xs) @ filter is_sci (drop p xs)"
    by (metis append_take_drop_id filter_append)
  then show ?thesis by (simp add: sci_count_def)
qed

lemma sci_rank: "sci_count 0 xs - sci_count p xs = length (filter is_sci (take p xs))"
  using sci_count_take[of xs p] by simp

text \<open>The header and data of a science extension after a successful call.\<close>

lemma science_extension_annotated:
  assumes "applyDgeoCorr env fobj = (R, None)" "p < length fobj" "is_sci (fobj ! p)"
  obtains dgraw where "primary_get fobj ''DGEOFILE'' = Inr dgraw"
    "R ! p = (fobj ! p)\<lparr>header :=
        annot dgraw (2 * int (length (filter is_sci (take p fobj)))) (header (fobj ! p))\<rparr>"
proof -
  show ?thesis
  proof (rule applyDgeoCorr_spec[OF assms(1)], goal_cases)
    case sp: (1 dgraw dgfile wcsd dgR)
    from sp(4) have "\<forall>p. 0 \<le> p \<and> p < length fobj \<and> is_sci (fobj ! p) \<longrightarrow>
        sci_done env wcsd (length fobj) dgraw fobj dgfile R p (fobj ! p)
          (0 + 2 * int (sci_count 0 fobj - sci_count p fobj))"
      unfolding loop_post_def by (elim conjE)
    with assms(2,3) have
      "sci_done env wcsd (length fobj) dgraw fobj dgfile R p (fobj ! p)
         (0 + 2 * int (sci_count 0 fobj - sci_count p fobj))"
      by simp
    then have "R ! p = (fobj ! p)\<lparr>header :=
          annot dgraw (2 * int (length (filter is_sci (take p fobj)))) (header (fobj ! p))\<rparr>"
      by (simp add: sci_done_def sci_rank)
    then show ?case using that[OF sp(1)] by simp
  qed
qed

lemma hdr_get_annot_values:
  "hdr_get (annot dgraw d hdr) ''CPERROR1'' = Inr (VFloat 0)"
  "hdr_get (annot dgraw d hdr) ''CPDIS1'' = Inr (VStr ''Lookup'')"
  "hdr_get (annot dgraw d hdr) ''DP1.EXTVER'' = Inr (VInt (d + 1))"
  "hdr_get (annot dgraw d hdr) ''DP1.NAXES'' = Inr (VInt 2)"
  "hdr_get (annot dgraw d hdr) ''DP1.AXIS.1'' = Inr (VInt 1)"
  "hdr_get (annot dgraw d hdr) ''DP1.AXIS.2'' = Inr (VInt 2)"
  "hdr_get (annot dgraw d hdr) ''CPERROR2'' = Inr (VFloat 0)"
  "hdr_get (annot dgraw d hdr) ''CPDIS2'' = Inr (VStr ''Lookup'')"
  "hdr_get (annot dgraw d hdr) ''DP2.EXTVER'' = Inr (VInt (d + 2))"
  "hdr_get (annot dgraw d hdr) ''DP2.NAXES'' = Inr (VInt 2)"
  "hdr_get (annot dgraw d hdr) ''DP2.AXIS.1'' = Inr (VInt 1)"
  "hdr_get (annot dgraw d hdr) ''DP2.AXIS.2'' = Inr (VInt 2)"
  by (simp_all add: annot_def addkw_def sci_cards_def axis_no_def str_int_1_2 hdr_get_update_card Let_def)

text \<open>
  C2: the science extension at position \<open>p\<close> is the \<open>k\<close>-th science extension in file
  order when \<open>k - 1\<close> science extensions stand before it. After a successful call its
  header has DP1.EXTVER = 2k - 1 and DP2.EXTVER = 2k; nothing is assumed about its own
  EXTVER.
\<close>

theorem lookup_versions_follow_traversal_order:
  assumes "applyDgeoCorr env fobj = (R, None)" "p < length fobj" "is_sci (fobj ! p)"
    and "k = Suc (length (filter is_sci (take p fobj)))"
  shows "hdr_get (header (R ! p)) ''DP1.EXTVER'' = Inr (VInt (2 * int k - 1))
       \<and> hdr_get (header (R ! p)) ''DP2.EXTVER'' = Inr (VInt (2 * int k))"
proof -
  let ?d = "2 * int (length (filter is_sci (take p fobj)))"
  have d: "?d + 1 = 2 * int k - 1" "?d + 2 = 2 * int k"
    using assms(4) by simp_all
  from assms(1,2,3) obtain dgraw where
    "R ! p = (fobj ! p)\<lparr>header := annot dgraw ?d (header (fobj ! p))\<rparr>"
    by (rule science_extension_annotated)
  then have "header (R ! p) = annot dgraw ?d (header (fobj ! p))" by simp
  then show ?thesis
    using hdr_get_annot_values(3,9)[of dgraw ?d "header (fobj ! p)"] d by simp
qed



theorem lookup_versions_follow_traversal_order_witness:
  "hdr_get (header (fst (applyDgeoCorr ref_env
       [primary_hdu ''ACS'', image_hdu ''SCI'' 7, image_hdu ''sci'' 3]) ! 2)) ''DP1.EXTVER'' = Inr (VInt 3)
   \<and> hdr_get (header (fst (applyDgeoCorr ref_env
       [primary_hdu ''ACS'', image_hdu ''SCI'' 7, image_hdu ''sci'' 3]) ! 2)) ''DP2.EXTVER'' = Inr (VInt 4)"
proof -
  let ?F = "[primary_hdu ''ACS'', image_hdu ''SCI'' 7, image_hdu ''sci'' 3]"
  have "snd (applyDgeoCorr ref_env ?F) = None" by code_simp
  then have r: "applyDgeoCorr ref_env ?F = (fst (applyDgeoCorr ref_env ?F), None)"
    by (simp add: prod_eq_iff)
  have p: "2 < length ?F" by simp
  have s: "is_sci (?F ! 2)" by code_simp
  have k: "2 = Suc (length (filter is_sci (take 2 ?F)))" by code_simp
  from lookup_versions_follow_traversal_order[OF r p s k] show ?thesis by simp
qed

subsection \<open>Where the keywords of a science header go\<close>







definition annot_cards :: "val \<Rightarrow> int \<Rightarrow> card list" where
  "annot_cards dgraw d =
     sci_cards (d + 1) ''DX'' @ [(''DGEOFILE'', dgraw, dgeofile_comment)]
     @ sci_cards (d + 2) ''DY'' @ [(''DGEOFILE'', dgraw, dgeofile_comment),
                                     (''DGEOFILE'', dgraw, dgeofile_comment)]"


lemma annot_foldl: "annot dgraw d hdr = foldl update_card hdr (annot_cards dgraw d)"
  by (simp add: annot_def addkw_def annot_cards_def)

















subsection \<open>A file without lookup extensions\<close>

lemma getwcsindex_empty:
  assumes "getwcsindex fobj = Inr wcsd" "\<forall>h \<in> set fobj. \<not> lookup_named h"
  shows "wcsd = []"
proof (cases wcsd)
  case Nil
  then show ?thesis .
next
  case (Cons ke d)
  obtain k e where ke: "ke = (k, e)" by (cases ke)
  have "dict_get wcsd k = Some e" using Cons ke by simp
  moreover have "find_last (lookup_for k) fobj = None"
    using assms(2) by (simp add: find_last_None lookup_for_def)
  ultimately show ?thesis using getwcsindex_get[OF assms(1), of k] by simp
qed

lemma appended_lookups:
  assumes run: "applyDgeoCorr env fobj = (R, None)"
    and none: "\<forall>h \<in> set fobj. \<not> lookup_named h"
  shows "length R = length fobj + 2 * length (filter is_sci fobj)"
    and "\<forall>p < length fobj. \<not> lookup_named (R ! p)"
    and "\<forall>j < 2 * length (filter is_sci fobj). lookup_ver (R ! (length fobj + j)) (int j + 1)"
proof -
  let ?n = "length fobj" and ?N = "length (filter is_sci fobj)"
  from run obtain dgraw dgfile wcsd dgR where sp:
    "getwcsindex fobj = Inr wcsd"
    "loop_post env wcsd ?n dgraw fobj dgfile 0 fobj 0 R dgR"
    by (rule applyDgeoCorr_spec)
  have w: "wcsd = []" using sp(1) none by (rule getwcsindex_empty)
  have N: "sci_count 0 fobj = ?N" by (simp add: sci_count_def)
  have a: "dgR = 2 * int ?N"
    and b: "run_inv [] ?n dgraw fobj R dgR"
    and c: "\<And>p. p < ?n \<Longrightarrow> is_sci (fobj ! p) \<Longrightarrow>
              sci_done env [] ?n dgraw fobj dgfile R p (fobj ! p)
                (0 + 2 * int (sci_count 0 fobj - sci_count p fobj))"
    and d: "\<And>v. 0 < v \<Longrightarrow> v \<le> dgR \<Longrightarrow> \<exists>k. slot [] ?n v = Some k \<and> k < length R \<and> lookup_ver (R ! k) v"
    and e: "\<And>p. p < ?n \<Longrightarrow> \<not> is_sci (fobj ! p) \<Longrightarrow>
              (\<forall>v. 0 < v \<and> v \<le> dgR \<longrightarrow> slot [] ?n v \<noteq> Some p) \<Longrightarrow> R ! p = fobj ! p"
    using sp(2) N unfolding loop_post_def w by auto
  show len: "length R = ?n + 2 * ?N"
    using b a by (simp add: run_inv_def nat_mult_distrib)
  show "\<forall>p < ?n. \<not> lookup_named (R ! p)"
  proof (intro allI impI)
    fix p assume p: "p < ?n"
    show "\<not> lookup_named (R ! p)"
    proof (cases "is_sci (fobj ! p)")
      case True
      from c[OF p True] have "is_sci (R ! p)"
        using True by (simp add: sci_done_def is_sci_header sci_header_annot)
      then show ?thesis using lookup_named_not_sci by blast
    next
      case False
      have "\<forall>v. 0 < v \<and> v \<le> dgR \<longrightarrow> slot [] ?n v \<noteq> Some p"
        using p by (auto simp: slot_def)
      from e[OF p False this] show ?thesis using none p by simp
    qed
  qed
  show "\<forall>j < 2 * ?N. lookup_ver (R ! (?n + j)) (int j + 1)"
  proof (intro allI impI)
    fix j assume j: "j < 2 * ?N"
    have "0 < int j + 1" "int j + 1 \<le> dgR" using j a by simp_all
    from d[OF this] show "lookup_ver (R ! (?n + j)) (int j + 1)"
      by (auto simp: slot_def)
  qed
qed

text \<open>
  C1: a file object with \<open>N\<close> science extensions and no extension named WCSDVARR. After a
  successful call the extensions named WCSDVARR are \<open>2N\<close> in number and their EXTVER
  values, in file order, are \<open>1, 2, \<dots>, 2N\<close>: each version is carried by exactly one lookup
  extension, none is skipped and none occurs twice.
\<close>

theorem lookup_extensions_numbered:
  assumes "applyDgeoCorr env fobj = (R, None)"
    and "\<forall>h \<in> set fobj. \<not> lookup_named h"
    and "N = length (filter is_sci fobj)"
  shows "length (filter lookup_named R) = 2 * N
     \<and> map (\<lambda>h. hdr_get (header h) ''EXTVER'') (filter lookup_named R)
         = map (\<lambda>v. Inr (VInt (int v))) [1..<Suc (2 * N)]"
proof -
  let ?n = "length fobj"
  note ap = appended_lookups[OF assms(1,2), folded assms(3)]
  have t: "filter lookup_named (take ?n R) = []"
    using ap(1,2) by (auto simp: filter_empty_conv in_set_conv_nth)
  have dr: "\<forall>h \<in> set (drop ?n R). lookup_named h"
  proof
    fix h assume "h \<in> set (drop ?n R)"
    then obtain j where j: "j < length (drop ?n R)" "h = drop ?n R ! j"
      by (auto simp: in_set_conv_nth)
    then have "j < 2 * N" using ap(1) by simp
    then have "lookup_ver (R ! (?n + j)) (int j + 1)" using ap(3) by simp
    then show "lookup_named h" using j ap(1) by (simp add: lookup_ver_def)
  qed
  then have "filter lookup_named (drop ?n R) = drop ?n R"
    by (simp add: filter_id_conv)
  then have f: "filter lookup_named R = drop ?n R"
    using t by (metis append_Nil append_take_drop_id filter_append)
  have m: "map (\<lambda>h. hdr_get (header h) ''EXTVER'') (drop ?n R)
         = map (\<lambda>v. Inr (VInt (int v))) [1..<Suc (2 * N)]"
  proof (rule nth_equalityI)
    show "length (map (\<lambda>h. hdr_get (header h) ''EXTVER'') (drop ?n R))
        = length (map (\<lambda>v. Inr (VInt (int v)) :: error + val) [1..<Suc (2 * N)])"
      using ap(1) by simp
  next
    fix j assume "j < length (map (\<lambda>h. hdr_get (header h) ''EXTVER'') (drop ?n R))"
    then have j: "j < 2 * N" using ap(1) by simp
    then have "lookup_ver (R ! (?n + j)) (int j + 1)" using ap(3) by simp
    then have "hdr_get (header (R ! (?n + j))) ''EXTVER'' = Inr (VInt (int j + 1))"
      by (simp add: lookup_ver_def)
    then show "map (\<lambda>h. hdr_get (header h) ''EXTVER'') (drop ?n R) ! j
        = map (\<lambda>v. Inr (VInt (int v))) [1..<Suc (2 * N)] ! j"
      using j ap(1) by (simp add: nth_upt del: upt_Suc)
  qed
  show ?thesis using f m ap(1) by simp
qed

theorem lookup_extensions_numbered_witness:
  "length (filter lookup_named (fst (applyDgeoCorr ref_env
       [primary_hdu ''ACS'', image_hdu ''SCI'' 7, image_hdu ''sci'' 3]))) = 4
   \<and> map (\<lambda>h. hdr_get (header h) ''EXTVER'') (filter lookup_named (fst (applyDgeoCorr ref_env
       [primary_hdu ''ACS'', image_hdu ''SCI'' 7, image_hdu ''sci'' 3])))
     = [Inr (VInt 1), Inr (VInt 2), Inr (VInt 3), Inr (VInt 4)]"
proof -
  let ?F = "[primary_hdu ''ACS'', image_hdu ''SCI'' 7, image_hdu ''sci'' 3]"
  have "snd (applyDgeoCorr ref_env ?F) = None" by code_simp
  then have r: "applyDgeoCorr ref_env ?F = (fst (applyDgeoCorr ref_env ?F), None)"
    by (simp add: prod_eq_iff)
  have n: "\<forall>h \<in> set ?F. \<not> lookup_named h"
    by (simp add: lookup_named_def primary_hdu_def image_hdu_def)
  have N: "2 = length (filter is_sci ?F)" by code_simp
  have "[1..<Suc (2 * 2)] = [1, 2, 3, 4]" by code_simp
  with lookup_extensions_numbered[OF r n N] show ?thesis by simp
qed



section \<open>Running the annotation again\<close>

subsection \<open>An annotated header is a fixed point of its updates\<close>

definition card_at :: "header \<Rightarrow> card \<Rightarrow> bool" where
  "card_at hdr c \<longleftrightarrow> find (\<lambda>c'. fst c' = fst c) hdr = Some c"

lemma card_at_Cons:
  "card_at (a # hdr) c \<longleftrightarrow> (if fst a = fst c then a = c else card_at hdr c)"
  by (simp add: card_at_def)

lemma card_at_has_key: "card_at hdr c \<Longrightarrow> has_key hdr (fst c)"
  by (induction hdr) (auto simp: card_at_Cons has_key_Cons card_at_def split: if_splits)

lemma replace_card_fix: "card_at hdr c \<Longrightarrow> replace_card c hdr = hdr"
  by (induction hdr) (auto simp: card_at_Cons card_at_def split: if_splits)

lemma update_card_fix: "card_at hdr c \<Longrightarrow> update_card hdr c = hdr"
  using card_at_has_key[of hdr c] replace_card_fix[of hdr c]
  by (cases c) (auto simp: update_card_def hdr_update_def)

lemma card_at_replace:
  "has_key hdr (fst c') \<Longrightarrow>
     card_at (replace_card c' hdr) c \<longleftrightarrow> (if fst c' = fst c then c' = c else card_at hdr c)"
  by (induction hdr) (auto simp: card_at_Cons has_key_Cons)

lemma card_at_no_key: "\<not> has_key hdr (fst c) \<Longrightarrow> \<not> card_at hdr c"
  using card_at_has_key by blast

lemma card_at_insert:
  "\<not> has_key hdr (fst c') \<Longrightarrow>
     card_at (insert_before b c' hdr) c \<longleftrightarrow> (if fst c' = fst c then c' = c else card_at hdr c)"
proof (induction hdr)
  case Nil
  then show ?case by (auto simp: card_at_Cons card_at_def)
next
  case (Cons a hdr)
  then have "fst a \<noteq> fst c'" "\<not> has_key hdr (fst c')" by (auto simp: has_key_Cons)
  then show ?case using Cons.IH by (auto simp: card_at_Cons)
qed

lemma update_card_eq:
  "update_card hdr c =
     (if has_key hdr (fst c) then replace_card c hdr else insert_before ''HISTORY'' c hdr)"
  by (cases c) (simp add: update_card_def hdr_update_def)

lemma card_at_update_card:
  "card_at (update_card hdr c') c \<longleftrightarrow> (if fst c' = fst c then c' = c else card_at hdr c)"
proof (cases "has_key hdr (fst c')")
  case True
  then show ?thesis unfolding update_card_eq using card_at_replace[OF True, of c] by simp
next
  case False
  then show ?thesis unfolding update_card_eq using card_at_insert[OF False, of "''HISTORY''" c] by simp
qed

lemma card_at_foldl_other:
  "\<forall>c' \<in> set cs. fst c' \<noteq> fst c \<Longrightarrow> card_at (foldl update_card hdr cs) c = card_at hdr c"
  by (induction cs arbitrary: hdr) (simp_all add: card_at_update_card)

lemma card_at_foldl:
  "c \<in> set cs \<Longrightarrow> \<forall>c' \<in> set cs. fst c' = fst c \<longrightarrow> c' = c \<Longrightarrow>
     card_at (foldl update_card hdr cs) c"
proof (induction cs arbitrary: hdr)
  case Nil
  then show ?case by simp
next
  case (Cons a cs)
  show ?case
  proof (cases "c \<in> set cs")
    case True
    then show ?thesis using Cons.IH[of "update_card hdr a"] Cons.prems(2) by simp
  next
    case False
    then have a: "a = c" using Cons.prems(1) by simp
    have "\<forall>c' \<in> set cs. fst c' \<noteq> fst c" using False Cons.prems(2) by auto
    then have "card_at (foldl update_card (update_card hdr a) cs) c = card_at (update_card hdr a) c"
      by (rule card_at_foldl_other)
    then show ?thesis using a by (simp add: card_at_update_card)
  qed
qed

lemma foldl_update_fix: "\<forall>c \<in> set cs. card_at hdr c \<Longrightarrow> foldl update_card hdr cs = hdr"
  by (induction cs) (simp_all add: update_card_fix)

lemma annot_cards_functional:
  assumes "c \<in> set (annot_cards dgraw d)" "c' \<in> set (annot_cards dgraw d)" "fst c' = fst c"
  shows "c' = c"
proof -
  let ?cs = "sci_cards (d + 1) ''DX'' @ sci_cards (d + 2) ''DY'' @ [(''DGEOFILE'', dgraw, dgeofile_comment)]"
  have s: "set (annot_cards dgraw d) = set ?cs"
    by (auto simp: annot_cards_def)
  have "distinct (map fst ?cs)"
    unfolding map_append sci_cards_keys by simp
  moreover have "(fst c, snd c) \<in> set ?cs"
    unfolding prod.collapse s[symmetric] by (rule assms(1))
  moreover have "(fst c, snd c') \<in> set ?cs"
    unfolding assms(3)[symmetric] prod.collapse s[symmetric] by (rule assms(2))
  ultimately have "snd c = snd c'"
    by (rule eq_key_imp_eq_value)
  then show ?thesis using assms(3) by (simp add: prod_eq_iff)
qed

lemma annot_card_at: "c \<in> set (annot_cards dgraw d) \<Longrightarrow> card_at (annot dgraw d hdr) c"
  unfolding annot_foldl using annot_cards_functional by (intro card_at_foldl) blast+

lemma annot_fix:
  "addkw dgraw (d + 1) ''DX'' (annot dgraw d hdr) = annot dgraw d hdr"
  "addkw dgraw (d + 2) ''DY'' (annot dgraw d hdr) = annot dgraw d hdr"
  "update_card (annot dgraw d hdr) (''DGEOFILE'', dgraw, dgeofile_comment) = annot dgraw d hdr"
proof -
  let ?H = "annot dgraw d hdr" and ?D = "(''DGEOFILE'', dgraw, dgeofile_comment)"
  have D: "update_card ?H ?D = ?H"
    by (rule update_card_fix, rule annot_card_at) (simp add: annot_cards_def)
  have "foldl update_card ?H (sci_cards (d + 1) ''DX'') = ?H"
    by (rule foldl_update_fix) (auto intro!: annot_card_at simp: annot_cards_def)
  then show "addkw dgraw (d + 1) ''DX'' ?H = ?H" using D by (simp add: addkw_def)
  have "foldl update_card ?H (sci_cards (d + 2) ''DY'') = ?H"
    by (rule foldl_update_fix) (auto intro!: annot_card_at simp: annot_cards_def)
  then show "addkw dgraw (d + 2) ''DY'' ?H = ?H" using D by (simp add: addkw_def)
  show "update_card ?H ?D = ?H" by (rule D)
qed

subsection \<open>A round that changes nothing\<close>

lemma upd_hdr_same [simp]: "upd_hdr i (header (xs ! i)) xs = xs"
  by (simp add: upd_hdr_def)

lemma axis_step_True:
  assumes "i < length cur" "primary_get cur ''DGEOFILE'' = Inr dgraw"
    and "createDgeoHDU env cur dgfile (dg + 1) ename x = Inr h"
    and "dict_get wcsd (VInt (dg + 1)) = Some k" "k < length cur"
  shows "axis_step env wcsd dgfile x i ename (cur, dg, header (cur ! i), True) =
     (((upd_hdr i (addkw dgraw (dg + 1) ename (header (cur ! i))) cur)[k := h], dg + 1,
       addkw dgraw (dg + 1) ename (header (cur ! i)), k \<noteq> i), None)"
proof -
  let ?h1 = "addkw dgraw (dg + 1) ename (header (cur ! i))"
  let ?c1 = "upd_hdr i ?h1 cur"
  have a: "addSciExtKw i True (dg + 1) ename (cur, header (cur ! i)) = ((?c1, ?h1), None)"
    unfolding addSciExtKw_True[OF assms(1)] assms(2) by (simp add: upd_hdr_def)
  have "primary_get ?c1 ''INSTRUME'' = primary_get cur ''INSTRUME''"
    unfolding upd_hdr_def
    by (rule primary_get_hdr_update[OF assms(1)]) (simp add: hdr_get_addkw_kept kept_key_def)
  then have h: "createDgeoHDU env ?c1 dgfile (dg + 1) ename x = Inr h"
    using createDgeoHDU_cong[of ?c1 cur env dgfile "dg + 1" ename x] assms(3) by simp
  have w: "wcsd \<noteq> []" using assms(4) by auto
  show ?thesis
    unfolding axis_step_def Let_def fst_conv snd_conv a h
    using w assms(4,5) by simp
qed

lemma sci_body_noop:
  assumes p: "p < length R" and dgraw: "primary_get R ''DGEOFILE'' = Inr dgraw"
    and x: "hdr_get (header (R ! p)) ''EXTVER'' = Inr x"
    and f1: "addkw dgraw (d + 1) ''DX'' (header (R ! p)) = header (R ! p)"
    and f2: "addkw dgraw (d + 2) ''DY'' (header (R ! p)) = header (R ! p)"
    and f3: "update_card (header (R ! p)) (''DGEOFILE'', dgraw, dgeofile_comment) = header (R ! p)"
    and c1: "createDgeoHDU env R dgfile (d + 1) ''DX'' x = Inr (R ! k1)"
    and c2: "createDgeoHDU env R dgfile (d + 2) ''DY'' x = Inr (R ! k2)"
    and s1: "dict_get wcsd (VInt (d + 1)) = Some k1" and s2: "dict_get wcsd (VInt (d + 2)) = Some k2"
    and k1: "k1 < length R" "k1 \<noteq> p" and k2: "k2 < length R" "k2 \<noteq> p"
  shows "sci_body env wcsd dgfile p (R, d) = ((R, d + 2), None)"
proof -
  have a1: "axis_step env wcsd dgfile x p ''DX'' (R, d, header (R ! p), True)
              = ((R, d + 1, header (R ! p), True), None)"
    unfolding axis_step_True[OF p dgraw c1 s1 k1(1)] f1 using k1(2) by simp
  have c2': "createDgeoHDU env R dgfile (d + 1 + 1) ''DY'' x = Inr (R ! k2)"
    and s2': "dict_get wcsd (VInt (d + 1 + 1)) = Some k2"
    and f2': "addkw dgraw (d + 1 + 1) ''DY'' (header (R ! p)) = header (R ! p)"
    using c2 s2 f2 by (simp_all add: add.assoc)
  have a2: "axis_step env wcsd dgfile x p ''DY'' (R, d + 1, header (R ! p), True)
              = ((R, d + 2, header (R ! p), True), None)"
    unfolding axis_step_True[OF p dgraw c2' s2' k2(1)] f2' using k2(2) by (simp add: add.assoc)
  have al: "axes_loop env wcsd dgfile x p [''DX'', ''DY''] (R, d, header (R ! p), True)
              = ((R, d + 2, header (R ! p), True), None)"
    by (simp add: a1 a2 Let_def)
  have u: "updateDGEOkw p True (R, header (R ! p)) = ((R, header (R ! p)), None)"
    by (simp add: updateDGEOkw_True[OF p] dgraw f3)
  show ?thesis
    unfolding sci_body_def fst_conv snd_conv x
    by (simp add: al u Let_def del: axes_loop.simps)
qed

lemma ext_body_nonsci_ok:
  "\<not> is_sci (fst s ! i) \<Longrightarrow> ext_ok (fst s ! i) \<Longrightarrow> snd (ext_body env wcsd dgfile i s) = None"
  by (auto simp: ext_body_def is_sci_def ext_ok_def split: sum.splits)

lemma ext_loop_noop:
  assumes "\<forall>p. i \<le> p \<and> p < length R \<longrightarrow> ext_ok (R ! p)"
    and "\<forall>p. i \<le> p \<and> p < length R \<and> is_sci (R ! p) \<longrightarrow>
      sci_body env wcsd dgfile p (R, dg + 2 * int (sci_count i R - sci_count p R))
        = ((R, dg + 2 * int (sci_count i R - sci_count p R) + 2), None)"
  shows "ext_loop env wcsd dgfile i (R, dg) = ((R, dg + 2 * int (sci_count i R)), None)"
  using assms
proof (induction "length R - i" arbitrary: i dg)
  case 0
  then have "length R \<le> i" by simp
  then show ?case
    by (simp add: ext_loop.simps[of env wcsd dgfile i "(R, dg)"] sci_count_beyond)
next
  case (Suc n)
  then have i: "i < length R" by simp
  show ?case
  proof (cases "is_sci (R ! i)")
    case False
    have b: "ext_body env wcsd dgfile i (R, dg) = ((R, dg), None)"
    proof -
      have "fst (ext_body env wcsd dgfile i (R, dg)) = (R, dg)"
        using False by (simp add: ext_body_cases)
      moreover have "snd (ext_body env wcsd dgfile i (R, dg)) = None"
        using False Suc.prems(1) i by (rule_tac ext_body_nonsci_ok) auto
      ultimately show ?thesis by (simp add: prod_eq_iff)
    qed
    have c: "sci_count i R = sci_count (Suc i) R"
      using i False by (rule sci_count_nonsci)
    have "\<forall>p. Suc i \<le> p \<and> p < length R \<and> is_sci (R ! p) \<longrightarrow>
      sci_body env wcsd dgfile p (R, dg + 2 * int (sci_count (Suc i) R - sci_count p R))
        = ((R, dg + 2 * int (sci_count (Suc i) R - sci_count p R) + 2), None)"
      using Suc.prems(2) c by auto
    moreover have "\<forall>p. Suc i \<le> p \<and> p < length R \<longrightarrow> ext_ok (R ! p)"
      using Suc.prems(1) by auto
    moreover have "n = length R - Suc i" using Suc.hyps(2) by simp
    ultimately have "ext_loop env wcsd dgfile (Suc i) (R, dg) = ((R, dg + 2 * int (sci_count (Suc i) R)), None)"
      using Suc.hyps(1)[of "Suc i" dg] by blast
    then show ?thesis
      using i b c by (simp add: ext_loop.simps[of env wcsd dgfile i "(R, dg)"] Let_def)
  next
    case True
    have "sci_body env wcsd dgfile i (R, dg) = ((R, dg + 2), None)"
      using Suc.prems(2)[rule_format, of i] i True by simp
    then have b: "ext_body env wcsd dgfile i (R, dg) = ((R, dg + 2), None)"
      using True ext_body_cases(1)[of "(R, dg)" i env wcsd dgfile] by simp
    have c: "sci_count i R = Suc (sci_count (Suc i) R)"
      using i True by (rule sci_count_Suc)
    have "sci_body env wcsd dgfile p (R, dg + 2 + 2 * int (sci_count (Suc i) R - sci_count p R))
        = ((R, dg + 2 + 2 * int (sci_count (Suc i) R - sci_count p R) + 2), None)"
      if p: "Suc i \<le> p" "p < length R" "is_sci (R ! p)" for p
    proof -
      have m: "sci_count p R \<le> sci_count (Suc i) R" using p(1) by (rule sci_count_mono)
      have e: "dg + 2 * int (sci_count i R - sci_count p R)
                = dg + 2 + 2 * int (sci_count (Suc i) R - sci_count p R)"
        using c m by simp
      from Suc.prems(2)[rule_format, of p] p have
        "sci_body env wcsd dgfile p (R, dg + 2 * int (sci_count i R - sci_count p R))
          = ((R, dg + 2 * int (sci_count i R - sci_count p R) + 2), None)"
        by simp
      then show ?thesis unfolding e .
    qed
    then have "\<forall>p. Suc i \<le> p \<and> p < length R \<and> is_sci (R ! p) \<longrightarrow>
      sci_body env wcsd dgfile p (R, dg + 2 + 2 * int (sci_count (Suc i) R - sci_count p R))
        = ((R, dg + 2 + 2 * int (sci_count (Suc i) R - sci_count p R) + 2), None)"
      by blast
    moreover have "\<forall>p. Suc i \<le> p \<and> p < length R \<longrightarrow> ext_ok (R ! p)"
      using Suc.prems(1) by auto
    moreover have "n = length R - Suc i" using Suc.hyps(2) by simp
    ultimately have "ext_loop env wcsd dgfile (Suc i) (R, dg + 2)
        = ((R, dg + 2 + 2 * int (sci_count (Suc i) R)), None)"
      using Suc.hyps(1)[of "Suc i" "dg + 2"] by blast
    then show ?thesis
      using i b c by (simp add: ext_loop.simps[of env wcsd dgfile i "(R, dg)"] Let_def)
  qed
qed



subsection \<open>The index of the annotated file\<close>

lemma getwcsindex_from_total:
  "\<forall>h \<in> set hs. lookup_named h \<longrightarrow> (\<exists>v. hdr_get (header h) ''EXTVER'' = Inr v) \<Longrightarrow>
     \<exists>d'. getwcsindex_from e hs d = Inr d'"
proof (induction hs arbitrary: e d)
  case Nil
  show ?case by simp
next
  case (Cons h hs)
  then have IH: "\<exists>d'. getwcsindex_from e' hs d0 = Inr d'" for e' d0 by simp
  show ?case
  proof (cases "lookup_named h")
    case True
    then obtain v where "hdr_get (header h) ''EXTVER'' = Inr v" using Cons.prems by auto
    then show ?thesis using True IH by (simp add: lookup_named_def)
  next
    case False
    then show ?thesis using IH
      by (cases "hdr_get (header h) ''EXTNAME''") (simp_all add: lookup_named_def)
  qed
qed

lemma getwcsindex_from_extver:
  "getwcsindex_from e hs d = Inr d' \<Longrightarrow>
     \<forall>h \<in> set hs. lookup_named h \<longrightarrow> (\<exists>v. hdr_get (header h) ''EXTVER'' = Inr v)"
proof (induction hs arbitrary: e d)
  case Nil
  show ?case by simp
next
  case (Cons h hs)
  show ?case
  proof (cases "lookup_named h")
    case True
    then have n: "hdr_get (header h) ''EXTNAME'' = Inr (VStr ''WCSDVARR'')"
      by (simp add: lookup_named_def)
    with Cons.prems obtain v where v: "hdr_get (header h) ''EXTVER'' = Inr v"
      and r: "getwcsindex_from (Suc e) hs (dict_set d v e) = Inr d'"
      by (auto split: sum.splits)
    from Cons.IH[OF r] v show ?thesis by simp
  next
    case False
    with Cons.prems have "getwcsindex_from (Suc e) hs d = Inr d'"
      by (auto simp: lookup_named_def split: sum.splits if_splits)
    from Cons.IH[OF this] False show ?thesis by simp
  qed
qed

lemma find_last_later:
  assumes "q < length xs" "P (xs ! q)"
  obtains k where "find_last P xs = Some k" "q \<le> k"
proof (cases "find_last P xs")
  case None
  then show ?thesis using assms by (auto simp: find_last_None)
next
  case (Some k)
  then have "\<forall>j'. k < j' \<and> j' < length xs \<longrightarrow> \<not> P (xs ! j')"
    by (simp add: find_last_Some)
  then have "q \<le> k" using assms by (meson not_le_imp_less)
  then show ?thesis using that Some by blast
qed

lemma lookup_ver_for: "lookup_ver h v' \<Longrightarrow> lookup_for (VInt v) h \<longleftrightarrow> v' = v"
  by (auto simp: lookup_ver_def lookup_for_def)

text \<open>Every extension of the result is an annotated science extension, a lookup
  extension at the position of its version, or an untouched extension of the input.\<close>

lemma result_classify:
  assumes post: "loop_post env wcsd (length fobj) dgraw fobj dgfile 0 fobj 0 R dgR"
    and q: "q < length R"
  shows "(q < length fobj \<and> is_sci (fobj ! q) \<and> is_sci (R ! q))
       \<or> (\<exists>v. 0 < v \<and> v \<le> dgR \<and> slot wcsd (length fobj) v = Some q \<and> lookup_ver (R ! q) v)
       \<or> (q < length fobj \<and> \<not> is_sci (fobj ! q) \<and> R ! q = fobj ! q)"
proof -
  let ?n = "length fobj"
  have b: "run_inv wcsd ?n dgraw fobj R dgR"
    and c: "\<forall>p. 0 \<le> p \<and> p < ?n \<and> is_sci (fobj ! p) \<longrightarrow>
              sci_done env wcsd ?n dgraw fobj dgfile R p (fobj ! p)
                (0 + 2 * int (sci_count 0 fobj - sci_count p fobj))"
    and d: "\<forall>v. 0 < v \<and> v \<le> dgR \<longrightarrow> (\<exists>k. slot wcsd ?n v = Some k \<and> k < length R \<and> lookup_ver (R ! k) v)"
    and e: "\<forall>p < ?n. \<not> (0 \<le> p \<and> is_sci (fobj ! p))
              \<and> (\<forall>v. 0 < v \<and> v \<le> dgR \<longrightarrow> slot wcsd ?n v \<noteq> Some p) \<longrightarrow> R ! p = fobj ! p"
    using post unfolding loop_post_def by blast+
  have sl: "lookup_ver (R ! q) v" if "0 < v" "v \<le> dgR" "slot wcsd ?n v = Some q" for v
    using d that by fastforce
  show ?thesis
  proof (cases "q < ?n")
    case True
    show ?thesis
    proof (cases "is_sci (fobj ! q)")
      case sci: True
      with c True have "sci_done env wcsd ?n dgraw fobj dgfile R q (fobj ! q)
                (0 + 2 * int (sci_count 0 fobj - sci_count q fobj))" by simp
      then have "is_sci (R ! q)"
        using sci by (simp add: sci_done_def is_sci_header sci_header_annot)
      then show ?thesis using True sci by simp
    next
      case False
      show ?thesis
      proof (cases "\<forall>v. 0 < v \<and> v \<le> dgR \<longrightarrow> slot wcsd ?n v \<noteq> Some q")
        case True
        then have "R ! q = fobj ! q" using e \<open>q < ?n\<close> False by simp
        then show ?thesis using \<open>q < ?n\<close> False by simp
      next
        case False
        then obtain v where "0 < v" "v \<le> dgR" "slot wcsd ?n v = Some q" by blast
        then show ?thesis using sl by blast
      qed
    qed
  next
    case False
    have w: "wcsd = []" using b q False by (auto simp: run_inv_def split: if_splits)
    then have len: "length R = ?n + nat dgR" and dg0: "0 \<le> dgR"
      using b by (simp_all add: run_inv_def)
    let ?v = "int (q - ?n) + 1"
    have v: "0 < ?v" "?v \<le> dgR" using q False len dg0 by auto
    have "slot wcsd ?n ?v = Some q" using w False by (simp add: slot_def)
    then show ?thesis using sl[OF v] v by blast
  qed
qed

lemma result_index:
  assumes scan: "getwcsindex fobj = Inr wcsd"
    and post: "loop_post env wcsd (length fobj) dgraw fobj dgfile 0 fobj 0 R dgR"
  obtains wcsd' where "getwcsindex R = Inr wcsd'"
    "\<forall>v. 0 < v \<and> v \<le> dgR \<longrightarrow> dict_get wcsd' (VInt v) = slot wcsd (length fobj) v"
proof -
  let ?n = "length fobj"
  note cl = result_classify[OF post]
  have d: "\<forall>v. 0 < v \<and> v \<le> dgR \<longrightarrow> (\<exists>k. slot wcsd ?n v = Some k \<and> k < length R \<and> lookup_ver (R ! k) v)"
    using post unfolding loop_post_def by blast
  have inj: "slot_inj wcsd ?n" using scan by (rule slot_inj_scan)
  have old: "\<forall>h \<in> set fobj. lookup_named h \<longrightarrow> (\<exists>v. hdr_get (header h) ''EXTVER'' = Inr v)"
    using scan unfolding getwcsindex_def by (rule getwcsindex_from_extver)
  have "\<forall>h \<in> set R. lookup_named h \<longrightarrow> (\<exists>v. hdr_get (header h) ''EXTVER'' = Inr v)"
  proof (intro ballI impI)
    fix h assume "h \<in> set R" and ln: "lookup_named h"
    then obtain q where q: "q < length R" "h = R ! q" by (auto simp: in_set_conv_nth)
    from cl[OF q(1)] show "\<exists>v. hdr_get (header h) ''EXTVER'' = Inr v"
    proof (elim disjE exE conjE)
      assume "is_sci (R ! q)"
      then show ?thesis using ln q(2) lookup_named_not_sci by blast
    next
      fix v assume "lookup_ver (R ! q) v"
      then show ?thesis using q(2) by (auto simp: lookup_ver_def)
    next
      assume "q < ?n" "R ! q = fobj ! q"
      then have "h \<in> set fobj" using q(2) by simp
      then show ?thesis using old ln by blast
    qed
  qed
  then obtain wcsd' where w': "getwcsindex R = Inr wcsd'"
    using getwcsindex_from_total[of R 0 "[]"] unfolding getwcsindex_def by blast
  have "dict_get wcsd' (VInt v) = slot wcsd ?n v" if v: "0 < v" "v \<le> dgR" for v
  proof -
    from d v obtain k where k: "slot wcsd ?n v = Some k" "k < length R" "lookup_ver (R ! k) v"
      by blast
    have here: "lookup_for (VInt v) (R ! k)" using k(3) by (simp add: lookup_ver_for)
    have later: "\<not> lookup_for (VInt v) (R ! q)" if q: "k < q" "q < length R" for q
    proof
      assume lf: "lookup_for (VInt v) (R ! q)"
      from cl[OF q(2)] show False
      proof (elim disjE exE conjE)
        assume "is_sci (R ! q)"
        then show False using lf lookup_named_not_sci by (auto simp: lookup_for_def)
      next
        fix v' assume v': "slot wcsd ?n v' = Some q" "lookup_ver (R ! q) v'"
        then have "v' = v" using lf by (simp add: lookup_ver_for)
        then show False using v'(1) k(1) q(1) by simp
      next
        assume o: "q < ?n" "R ! q = fobj ! q"
        then have "lookup_for (VInt v) (fobj ! q)" using lf by simp
        with o(1) obtain k' where k': "find_last (lookup_for (VInt v)) fobj = Some k'" "q \<le> k'"
          by (rule find_last_later)
        then have dk: "dict_get wcsd (VInt v) = Some k'"
          using getwcsindex_get[OF scan, of "VInt v"] by simp
        then have "wcsd \<noteq> []" by auto
        then have "slot wcsd ?n v = Some k'" using dk by (simp add: slot_def)
        then show False using k(1) k'(2) q(1) by simp
      qed
    qed
    have "find_last (lookup_for (VInt v)) R = Some k"
      unfolding find_last_Some using k(2) here later by blast
    then show ?thesis using getwcsindex_get[OF w', of "VInt v"] k(1) by simp
  qed
  then show ?thesis using that[OF w'] by blast
qed

text \<open>
  C4: when the annotation of a file object succeeds, annotating the result again (same
  reference file, same instrument table) succeeds and leaves it as it is: every lookup
  extension is written over itself, every science header is rewritten to what it holds,
  and nothing is appended.
\<close>

theorem annotation_idempotent:
  assumes "applyDgeoCorr env fobj = (R, None)"
  shows "applyDgeoCorr env R = (R, None)"
proof -
  let ?n = "length fobj"
  from assms obtain dgraw dgfile wcsd dgR where sp:
    "primary_get fobj ''DGEOFILE'' = Inr dgraw" "osfn env dgraw = Inr dgfile"
    "getwcsindex fobj = Inr wcsd"
    "loop_post env wcsd ?n dgraw fobj dgfile 0 fobj 0 R dgR"
    by (rule applyDgeoCorr_spec)
  note post = sp(4)
  have a: "dgR = 0 + 2 * int (sci_count 0 fobj)"
    and b: "run_inv wcsd ?n dgraw fobj R dgR"
    and c: "\<forall>p. 0 \<le> p \<and> p < ?n \<and> is_sci (fobj ! p) \<longrightarrow>
              sci_done env wcsd ?n dgraw fobj dgfile R p (fobj ! p)
                (0 + 2 * int (sci_count 0 fobj - sci_count p fobj))"
    and f: "?n \<le> length R"
    and g: "\<forall>p. 0 \<le> p \<and> p < length R \<longrightarrow> ext_ok (R ! p)"
    and h: "\<forall>p. sci_count p R = sci_count p fobj"
    using post unfolding loop_post_def by blast+
  have pd: "primary_get R ''DGEOFILE'' = Inr dgraw"
    and pin: "primary_get R ''INSTRUME'' = primary_get fobj ''INSTRUME''"
    using b by (simp_all add: run_inv_def)
  from sp(3) post obtain wcsd' where w': "getwcsindex R = Inr wcsd'"
    and look: "\<forall>v. 0 < v \<and> v \<le> dgR \<longrightarrow> dict_get wcsd' (VInt v) = slot wcsd ?n v"
    by (rule result_index)
  have noop: "sci_body env wcsd' dgfile p (R, 0 + 2 * int (sci_count 0 R - sci_count p R))
        = ((R, 0 + 2 * int (sci_count 0 R - sci_count p R) + 2), None)"
    if p: "p < length R" "is_sci (R ! p)" for p
  proof -
    from result_classify[OF post p(1)] p(2) have pn: "p < ?n" and ps: "is_sci (fobj ! p)"
      using lookup_named_not_sci by (auto simp: lookup_ver_def)
    let ?d = "2 * int (sci_count 0 fobj - sci_count p fobj)"
    have dn: "sci_done env wcsd ?n dgraw fobj dgfile R p (fobj ! p) ?d"
      using c pn ps by simp
    then obtain x k1 k2 where sd:
      "R ! p = (fobj ! p)\<lparr>header := annot dgraw ?d (header (fobj ! p))\<rparr>"
      "hdr_get (header (fobj ! p)) ''EXTVER'' = Inr x"
      "slot wcsd ?n (?d + 1) = Some k1" "k1 < length R"
      "createDgeoHDU env fobj dgfile (?d + 1) ''DX'' x = Inr (R ! k1)"
      "slot wcsd ?n (?d + 2) = Some k2" "k2 < length R"
      "createDgeoHDU env fobj dgfile (?d + 2) ''DY'' x = Inr (R ! k2)"
      unfolding sci_done_def by blast
    have H: "header (R ! p) = annot dgraw ?d (header (fobj ! p))" using sd(1) by simp
    have x: "hdr_get (header (R ! p)) ''EXTVER'' = Inr x"
      unfolding H using sd(2) by (simp add: hdr_get_annot_kept kept_key_def)
    have cp: "sci_count p fobj = Suc (sci_count (Suc p) fobj)"
      using pn ps by (rule sci_count_Suc)
    have m: "sci_count p fobj \<le> sci_count 0 fobj" by (rule sci_count_mono) simp
    have rng: "0 < ?d + 1" "?d + 1 \<le> dgR" "0 < ?d + 2" "?d + 2 \<le> dgR"
      using a cp m by auto
    have s1: "dict_get wcsd' (VInt (?d + 1)) = Some k1" and s2: "dict_get wcsd' (VInt (?d + 2)) = Some k2"
      using look rng sd(3,6) by simp_all
    have c1: "createDgeoHDU env R dgfile (?d + 1) ''DX'' x = Inr (R ! k1)"
      and c2: "createDgeoHDU env R dgfile (?d + 2) ''DY'' x = Inr (R ! k2)"
      using sd(5,8) createDgeoHDU_cong[OF pin] by simp_all
    have "\<not> is_sci (R ! k1)" "\<not> is_sci (R ! k2)"
      using createDgeoHDU_facts(5)[OF c1] createDgeoHDU_facts(5)[OF c2] by simp_all
    then have kp: "k1 \<noteq> p" "k2 \<noteq> p" using p(2) by auto
    have "sci_body env wcsd' dgfile p (R, ?d) = ((R, ?d + 2), None)"
      by (rule sci_body_noop[OF p(1) pd x _ _ _ c1 c2 s1 s2 sd(4) kp(1) sd(7) kp(2)])
         (simp_all add: H annot_fix)
    then show ?thesis using h by simp
  qed
  have "ext_loop env wcsd' dgfile 0 (R, 0) = ((R, 0 + 2 * int (sci_count 0 R)), None)"
    by (rule ext_loop_noop) (use g noop in auto)
  then show ?thesis
    by (simp add: applyDgeoCorr_def pd sp(2) w' Let_def)
qed

theorem annotation_idempotent_witness:
  "applyDgeoCorr ref_env (fst (applyDgeoCorr ref_env
       [primary_hdu ''ACS'', image_hdu ''SCI'' 7, image_hdu ''sci'' 3]))
     = applyDgeoCorr ref_env [primary_hdu ''ACS'', image_hdu ''SCI'' 7, image_hdu ''sci'' 3]
   \<and> length (fst (applyDgeoCorr ref_env
       [primary_hdu ''ACS'', image_hdu ''SCI'' 7, image_hdu ''sci'' 3])) = 7"
proof -
  let ?F = "[primary_hdu ''ACS'', image_hdu ''SCI'' 7, image_hdu ''sci'' 3]"
  have s: "snd (applyDgeoCorr ref_env ?F) = None" by code_simp
  then have r: "applyDgeoCorr ref_env ?F = (fst (applyDgeoCorr ref_env ?F), None)"
    by (simp add: prod_eq_iff)
  have l: "length (fst (applyDgeoCorr ref_env ?F)) = 7" by code_simp
  from annotation_idempotent[OF r] r l show ?thesis by simp
qed



section \<open>An instrument that is not in the defaults table\<close>

text \<open>The traversal steps over extensions that are not science extensions.\<close>

lemma ext_loop_skip:
  assumes "\<forall>p. i \<le> p \<and> p < q \<longrightarrow> \<not> is_sci (fobj ! p) \<and> ext_ok (fobj ! p)"
    and "i \<le> q" "q \<le> length fobj"
  shows "ext_loop env wcsd dgfile i (fobj, dg) = ext_loop env wcsd dgfile q (fobj, dg)"
  using assms
proof (induction "q - i" arbitrary: i)
  case 0
  then show ?case by simp
next
  case (Suc n)
  then have iq: "i < q" by simp
  then have n: "\<not> is_sci (fst (fobj, dg) ! i)" and ok: "ext_ok (fst (fobj, dg) ! i)"
    using Suc.prems(1) by simp_all
  have b: "ext_body env wcsd dgfile i (fobj, dg) = ((fobj, dg), None)"
    using ext_body_cases(2)[OF n, of env wcsd dgfile] ext_body_nonsci_ok[OF n ok, of env wcsd dgfile]
    by (simp add: prod_eq_iff)
  have "ext_loop env wcsd dgfile i (fobj, dg) = ext_loop env wcsd dgfile (Suc i) (fobj, dg)"
    using iq Suc.prems(3) b by (simp add: ext_loop.simps[of env wcsd dgfile i "(fobj, dg)"])
  also have "\<dots> = ext_loop env wcsd dgfile q (fobj, dg)"
    by (rule Suc.hyps(1)) (use Suc.hyps(2) Suc.prems iq in auto)
  finally show ?case .
qed

text \<open>The first axis of a science extension: the keywords are written, then the lookup
  header cannot be built.\<close>

lemma axis_step_unknown_state:
  assumes "primary_get fobj ''INSTRUME'' = Inr instr" "dgeo_vals env instr = None"
    and i: "i < length fobj" and dgraw: "primary_get fobj ''DGEOFILE'' = Inr dgraw"
  shows "axis_step env wcsd dgfile x i ename (fobj, dg, header (fobj ! i), True)
       = ((upd_hdr i (addkw dgraw (dg + 1) ename (header (fobj ! i))) fobj, dg + 1,
           addkw dgraw (dg + 1) ename (header (fobj ! i)), True), Some KeyError)"
proof -
  let ?h = "addkw dgraw (dg + 1) ename (header (fobj ! i))"
  have a: "addSciExtKw i True (dg + 1) ename (fobj, header (fobj ! i)) = ((upd_hdr i ?h fobj, ?h), None)"
    by (simp add: addSciExtKw_True[OF i] dgraw upd_hdr_def)
  have ne: "fobj \<noteq> []" using i by auto
  have "primary_get (upd_hdr i ?h fobj) ''INSTRUME'' = primary_get fobj ''INSTRUME''"
    by (simp add: primary_get_upd_hdr[OF i] hdr_get_addkw_kept kept_key_def primary_get_nth0[OF ne])
  then have "createDgeoHDU env (upd_hdr i ?h fobj) dgfile (dg + 1) ename x = Inl KeyError"
    using assms(1,2) by (intro createDgeoHDU_unknown[where instr = instr]) simp_all
  then show ?thesis by (simp add: axis_step_def a Let_def)
qed

lemma sci_body_unknown_state:
  assumes "primary_get fobj ''INSTRUME'' = Inr instr" "dgeo_vals env instr = None"
    and "i < length fobj" and "primary_get fobj ''DGEOFILE'' = Inr dgraw"
    and x: "hdr_get (header (fobj ! i)) ''EXTVER'' = Inr x"
  shows "sci_body env wcsd dgfile i (fobj, dg)
       = ((upd_hdr i (addkw dgraw (dg + 1) ''DX'' (header (fobj ! i))) fobj, dg + 1), Some KeyError)"
  by (simp add: sci_body_def x axis_step_unknown_state[OF assms(1-4)] Let_def)

lemma unknown_instrument_frame:
  assumes "primary_get fobj ''INSTRUME'' = Inr instr" "dgeo_vals env instr = None"
  shows "length (fst (applyDgeoCorr env fobj)) = length fobj
     \<and> (\<forall>p<length fobj.
           hdata (fst (applyDgeoCorr env fobj) ! p) = hdata (fobj ! p)
           \<and> (fst (applyDgeoCorr env fobj) ! p \<noteq> fobj ! p \<longrightarrow>
                 is_sci (fobj ! p) \<and> (\<forall>q<p. \<not> is_sci (fobj ! q))))
     \<and> ((\<exists>p<length fobj. is_sci (fobj ! p)) \<longrightarrow> snd (applyDgeoCorr env fobj) \<noteq> None)"
proof -
  let ?R = "fst (applyDgeoCorr env fobj)" and ?e = "snd (applyDgeoCorr env fobj)"
  have "(?R = fobj \<and> (?e = None \<longrightarrow> (\<forall>p. p < length fobj \<longrightarrow> \<not> is_sci (fobj ! p))))
        \<or> (first_sci_change 0 fobj ?R \<and> ?e \<noteq> None)"
  proof (cases "primary_get fobj ''DGEOFILE''")
    case (Inl err)
    then show ?thesis by (simp add: applyDgeoCorr_def)
  next
    case v: (Inr v)
    show ?thesis
    proof (cases "osfn env v")
      case (Inl err)
      then show ?thesis using v by (simp add: applyDgeoCorr_def)
    next
      case f: (Inr dgfile)
      show ?thesis
      proof (cases "getwcsindex fobj")
        case (Inl err)
        then show ?thesis using v f by (simp add: applyDgeoCorr_def)
      next
        case (Inr wcsd)
        have "applyDgeoCorr env fobj
                = (fst (fst (ext_loop env wcsd dgfile 0 (fobj, 0))), snd (ext_loop env wcsd dgfile 0 (fobj, 0)))"
          using v f Inr by (simp add: applyDgeoCorr_def Let_def)
        then show ?thesis
          using ext_loop_unknown[of "(fobj, 0)" instr env wcsd dgfile 0] assms by simp
      qed
    qed
  qed
  then show ?thesis
  proof
    assume "?R = fobj \<and> (?e = None \<longrightarrow> (\<forall>p. p < length fobj \<longrightarrow> \<not> is_sci (fobj ! p)))"
    then show ?thesis by auto
  next
    assume a: "first_sci_change 0 fobj ?R \<and> ?e \<noteq> None"
    then obtain q h' where q: "q < length fobj" "is_sci (fobj ! q)"
      "\<forall>p. p < q \<longrightarrow> \<not> is_sci (fobj ! p)" "?R = fobj[q := (fobj ! q)\<lparr>header := h'\<rparr>]"
      by (auto simp: first_sci_change_def)
    have "hdata (?R ! p) = hdata (fobj ! p)
           \<and> (?R ! p \<noteq> fobj ! p \<longrightarrow> is_sci (fobj ! p) \<and> (\<forall>q<p. \<not> is_sci (fobj ! q)))"
      if "p < length fobj" for p
      unfolding q(4) using that q(1,2,3) by (cases "p = q") auto
    then show ?thesis using a q(4) by simp
  qed
qed

text \<open>The call reaches the first science extension, at position \<open>q\<close>, and stops there.\<close>

lemma unknown_instrument_reached:
  assumes "primary_get fobj ''INSTRUME'' = Inr instr" "dgeo_vals env instr = None"
    and dgraw: "primary_get fobj ''DGEOFILE'' = Inr dgraw" and f: "osfn env dgraw = Inr dgfile"
    and w: "getwcsindex fobj = Inr wcsd"
    and q: "q < length fobj" and sci: "is_sci (fobj ! q)"
    and before: "\<forall>p<q. \<not> is_sci (fobj ! p) \<and> ext_ok (fobj ! p)"
    and x: "hdr_get (header (fobj ! q)) ''EXTVER'' = Inr x"
  shows "applyDgeoCorr env fobj
       = (upd_hdr q (addkw dgraw 1 ''DX'' (header (fobj ! q))) fobj, Some KeyError)"
proof -
  have "ext_loop env wcsd dgfile 0 (fobj, 0) = ext_loop env wcsd dgfile q (fobj, 0)"
    by (rule ext_loop_skip) (use before q in auto)
  also have "\<dots> = sci_body env wcsd dgfile q (fobj, 0)"
    using q sci sci_body_unknown_state[OF assms(1,2) q dgraw x, of wcsd dgfile 0]
    by (simp add: ext_loop.simps[of env wcsd dgfile q "(fobj, 0)"] ext_body_cases(1))
  also have "\<dots> = ((upd_hdr q (addkw dgraw 1 ''DX'' (header (fobj ! q))) fobj, 1), Some KeyError)"
    using sci_body_unknown_state[OF assms(1,2) q dgraw x, of wcsd dgfile 0] by simp
  finally show ?thesis by (simp add: applyDgeoCorr_def dgraw f w)
qed

text \<open>Without a science extension the instrument table is never consulted.\<close>

lemma no_science_extension:
  assumes dgraw: "primary_get fobj ''DGEOFILE'' = Inr dgraw" and f: "osfn env dgraw = Inr dgfile"
    and w: "getwcsindex fobj = Inr wcsd"
    and all: "\<forall>p<length fobj. \<not> is_sci (fobj ! p) \<and> ext_ok (fobj ! p)"
  shows "applyDgeoCorr env fobj = (fobj, None)"
proof -
  have "ext_loop env wcsd dgfile 0 (fobj, 0) = ext_loop env wcsd dgfile (length fobj) (fobj, 0)"
    by (rule ext_loop_skip) (use all in auto)
  also have "\<dots> = ((fobj, 0), None)"
    by (simp add: ext_loop.simps[of env wcsd dgfile "length fobj" "(fobj, 0)"])
  finally show ?thesis by (simp add: applyDgeoCorr_def dgraw f w)
qed

text \<open>
  C7, as amended: when the instrument of the primary header is not in the defaults table,
  the call leaves a file object of the same length (no lookup extension appended), in
  which every extension keeps its data and the only extension that can differ from before
  is the first science extension (no slot overwritten); and the call fails whenever there
  is a science extension. The header of that first science extension is modified before
  the failure: when the call gets as far as this extension (the primary DGEOFILE is
  present and resolves, the index scan completes, every earlier extension that has an
  EXTNAME has a string there, and the science extension has an EXTVER), it ends in
  KeyError with the file object as before except that this header has received the
  keyword block of the first axis for lookup version 1 (\<open>addkw\<close>: the six keywords of
  axis 1 and DGEOFILE). When there is no science extension and the same preliminaries
  succeed, the call returns the file object unchanged and without error.
\<close>

theorem unknown_instrument_partial_mutation:
  assumes "primary_get fobj ''INSTRUME'' = Inr instr" "dgeo_vals env instr = None"
  shows "length (fst (applyDgeoCorr env fobj)) = length fobj
     \<and> (\<forall>p<length fobj.
           hdata (fst (applyDgeoCorr env fobj) ! p) = hdata (fobj ! p)
           \<and> (fst (applyDgeoCorr env fobj) ! p \<noteq> fobj ! p \<longrightarrow>
                 is_sci (fobj ! p) \<and> (\<forall>q<p. \<not> is_sci (fobj ! q))))
     \<and> ((\<exists>p<length fobj. is_sci (fobj ! p)) \<longrightarrow> snd (applyDgeoCorr env fobj) \<noteq> None)
     \<and> (primary_get fobj ''DGEOFILE'' = Inr dgraw \<and> osfn env dgraw = Inr dgfile
          \<and> getwcsindex fobj = Inr wcsd
          \<and> q < length fobj \<and> is_sci (fobj ! q)
          \<and> (\<forall>p<q. \<not> is_sci (fobj ! p) \<and> ext_ok (fobj ! p))
          \<and> hdr_get (header (fobj ! q)) ''EXTVER'' = Inr x
        \<longrightarrow> applyDgeoCorr env fobj
              = (fobj[q := (fobj ! q)\<lparr>header := addkw dgraw 1 ''DX'' (header (fobj ! q))\<rparr>],
                 Some KeyError))
     \<and> (primary_get fobj ''DGEOFILE'' = Inr dgraw \<and> osfn env dgraw = Inr dgfile
          \<and> getwcsindex fobj = Inr wcsd
          \<and> (\<forall>p<length fobj. \<not> is_sci (fobj ! p) \<and> ext_ok (fobj ! p))
        \<longrightarrow> applyDgeoCorr env fobj = (fobj, None))"
proof -
  have r: "applyDgeoCorr env fobj
        = (fobj[q := (fobj ! q)\<lparr>header := addkw dgraw 1 ''DX'' (header (fobj ! q))\<rparr>], Some KeyError)"
    if "primary_get fobj ''DGEOFILE'' = Inr dgraw" "osfn env dgraw = Inr dgfile"
      "getwcsindex fobj = Inr wcsd" "q < length fobj" "is_sci (fobj ! q)"
      "\<forall>p<q. \<not> is_sci (fobj ! p) \<and> ext_ok (fobj ! p)"
      "hdr_get (header (fobj ! q)) ''EXTVER'' = Inr x"
    using unknown_instrument_reached[OF assms that] by (simp add: upd_hdr_def)
  have n: "applyDgeoCorr env fobj = (fobj, None)"
    if "primary_get fobj ''DGEOFILE'' = Inr dgraw" "osfn env dgraw = Inr dgfile"
      "getwcsindex fobj = Inr wcsd" "\<forall>p<length fobj. \<not> is_sci (fobj ! p) \<and> ext_ok (fobj ! p)"
    using that by (rule no_science_extension)
  show ?thesis
    using unknown_instrument_frame[OF assms] r n by blast
qed

theorem unknown_instrument_partial_mutation_witness:
  "applyDgeoCorr ref_env [primary_hdu ''XYZ'', image_hdu ''SCI'' 1]
     = ([primary_hdu ''XYZ'',
         \<lparr>header = [(''EXTNAME'', VStr ''SCI'', []), (''EXTVER'', VInt 1, []),
              (''CPERROR1'', VFloat 0, ''Maximum error of dgeo correction for axis 0''),
              (''CPDIS1'', VStr ''Lookup'', ''Prior distortion funcion type''),
              (''DP1.EXTVER'', VInt 1,
               ''Version number of WCSDVARR extension containing lookup distortion table''),
              (''DP1.NAXES'', VInt 2, ''Number of independent variables in distortion function''),
              (''DP1.AXIS.1'', VInt 1,
               ''Axis number of the jth independent variable in a distortion function''),
              (''DP1.AXIS.2'', VInt 2,
               ''Axis number of the jth independent variable in a distortion function''),
              (''DGEOFILE'', VStr ''d.fits'', ''DGEOFILE used to create WCSDVARR extensions''),
              (''HISTORY'', VStr ''calibrated'', [])],
          hdata = Some (''image'', VInt 1)\<rparr>], Some KeyError)
   \<and> applyDgeoCorr ref_env [primary_hdu ''XYZ'', image_hdu ''IMG'' 1]
     = ([primary_hdu ''XYZ'', image_hdu ''IMG'' 1], None)"
proof -
  let ?F = "[primary_hdu ''XYZ'', image_hdu ''SCI'' 1]"
  let ?G = "[primary_hdu ''XYZ'', image_hdu ''IMG'' 1]"
  have i: "primary_get ?F ''INSTRUME'' = Inr (VStr ''XYZ'')"
    "primary_get ?G ''INSTRUME'' = Inr (VStr ''XYZ'')"
    by (simp_all add: primary_get_def primary_hdu_def)
  have t: "dgeo_vals ref_env (VStr ''XYZ'') = None"
    by (simp add: ref_env_def)
  have d: "primary_get ?F ''DGEOFILE'' = Inr (VStr ''d.fits'')"
    "primary_get ?G ''DGEOFILE'' = Inr (VStr ''d.fits'')"
    by (simp_all add: primary_get_def primary_hdu_def)
  have f: "osfn ref_env (VStr ''d.fits'') = Inr (VStr ''/ref/d.fits'')"
    by (simp add: ref_env_def)
  have w: "getwcsindex ?F = Inr []" "getwcsindex ?G = Inr []" by code_simp+
  have s: "is_sci (?F ! 1)"
    by (simp add: is_sci_def image_hdu_def lower_lit)
  have b: "\<forall>p<1. \<not> is_sci (?F ! p) \<and> ext_ok (?F ! p)"
    by (simp add: is_sci_def ext_ok_def primary_hdu_def)
  have x: "hdr_get (header (?F ! 1)) ''EXTVER'' = Inr (VInt 1)"
    by (simp add: image_hdu_def)
  have g: "\<forall>p<length ?G. \<not> is_sci (?G ! p) \<and> ext_ok (?G ! p)"
    by (simp add: is_sci_def ext_ok_def primary_hdu_def image_hdu_def lower_def lower_char_def
        less_Suc_eq)
  have h: "addkw (VStr ''d.fits'') 1 ''DX'' (header (image_hdu ''SCI'' 1))
       = [(''EXTNAME'', VStr ''SCI'', []), (''EXTVER'', VInt 1, []),
              (''CPERROR1'', VFloat 0, ''Maximum error of dgeo correction for axis 0''),
              (''CPDIS1'', VStr ''Lookup'', ''Prior distortion funcion type''),
              (''DP1.EXTVER'', VInt 1,
               ''Version number of WCSDVARR extension containing lookup distortion table''),
              (''DP1.NAXES'', VInt 2, ''Number of independent variables in distortion function''),
              (''DP1.AXIS.1'', VInt 1,
               ''Axis number of the jth independent variable in a distortion function''),
              (''DP1.AXIS.2'', VInt 2,
               ''Axis number of the jth independent variable in a distortion function''),
              (''DGEOFILE'', VStr ''d.fits'', ''DGEOFILE used to create WCSDVARR extensions''),
              (''HISTORY'', VStr ''calibrated'', [])]"
    by code_simp
  note F = unknown_instrument_partial_mutation[OF i(1) t, where dgraw = "VStr ''d.fits''"
      and dgfile = "VStr ''/ref/d.fits''" and wcsd = "[]" and q = 1 and x = "VInt 1"]
  note G = unknown_instrument_partial_mutation[OF i(2) t, where dgraw = "VStr ''d.fits''"
      and dgfile = "VStr ''/ref/d.fits''" and wcsd = "[]"]
  have l: "1 < length ?F" by simp
  have "applyDgeoCorr ref_env ?F
      = (?F[1 := (?F ! 1)\<lparr>header := addkw (VStr ''d.fits'') 1 ''DX'' (header (?F ! 1))\<rparr>],
         Some KeyError)"
    by (rule mp[OF F[THEN conjunct2, THEN conjunct2, THEN conjunct2, THEN conjunct1]])
       (intro conjI d(1) f w(1) l s b x)
  moreover have "applyDgeoCorr ref_env ?G = (?G, None)"
    by (rule mp[OF G[THEN conjunct2, THEN conjunct2, THEN conjunct2, THEN conjunct2]])
       (intro conjI d(2) f w(2) g)
  ultimately show ?thesis by (simp add: h, simp add: image_hdu_def)
qed

text \<open>
  C7 as stated fails: with an unknown instrument the call ends in KeyError after the
  card CPDIS1 of the science header has been rewritten.
\<close>

theorem unknown_instrument_header_already_modified:
  "dgeo_vals ref_env (VStr ''XYZ'') = None
   \<and> snd (applyDgeoCorr ref_env
        [primary_hdu ''XYZ'',
         \<lparr>header = [(''EXTNAME'', VStr ''SCI'', []), (''EXTVER'', VInt 1, []),
                    (''CPDIS1'', VStr ''Polynomial'', [])], hdata = None\<rparr>]) = Some KeyError
   \<and> hdr_get (header (fst (applyDgeoCorr ref_env
        [primary_hdu ''XYZ'',
         \<lparr>header = [(''EXTNAME'', VStr ''SCI'', []), (''EXTVER'', VInt 1, []),
                    (''CPDIS1'', VStr ''Polynomial'', [])], hdata = None\<rparr>]) ! 1)) ''CPDIS1''
      = Inr (VStr ''Lookup'')"
  by code_simp

end
